theory Spec2Isabelle
  imports Complex_Main "HOL-Library.AList"
begin

section \<open>Segment aggregation service (cloud/backend/aggregator.py)\<close>

text \<open>
  The aggregation service keeps, per road segment, a bounded buffer of vehicle samples
  and a confidence-weighted comfort score. The embedding follows the Python source
  method by method. Conventions:

  \<^item> A Python float that enters the service (a score, a confidence, a speed) is a finite
    number, idealised as a \<open>real\<close>. The values that numpy computes are of type
    \<open>npfloat\<close>, which adds the IEEE special values \<open>inf\<close>, \<open>-inf\<close> and \<open>nan\<close> that
    numpy's array division produces where Python's own division would raise.
  \<^item> Arithmetic on finite values is exact: neither rounding nor overflow is modelled. The
    embedding describes the code where no sum, product or quotient leaves the range of
    a 64-bit float, which for the windows of this service (at most 10 samples) is the
    case when every score and confidence is at most \<open>10^300\<close> in magnitude. Beyond that
    range the code's \<open>np.sum\<close> can overflow to \<open>inf\<close>; that behaviour is outside the
    embedding.
  \<^item> \<open>datetime\<close> is a number of microseconds, \<open>timedelta\<close> likewise; every method that
    reads \<open>datetime.utcnow()\<close> takes the reading as its argument \<open>now\<close> (one reading per
    call of a public method).
  \<^item> The dictionary \<open>self.buffers\<close> is an association list in insertion order
    (Python dictionaries keep it); its keys are distinct.
  \<^item> A method that mutates \<open>self\<close> returns the new object next to its result; a method
    that may raise returns a sum, \<open>Inl\<close> the exception together with the object as the
    statements before the raise have left it.
\<close>

subsection \<open>numpy arithmetic\<close>

datatype npfloat = Fin real | PInf | NInf | NaN

datatype py_error = ZeroDivisionError | KeyError

fun fp_add :: "npfloat \<Rightarrow> npfloat \<Rightarrow> npfloat" where
  "fp_add NaN y = NaN"
| "fp_add x NaN = NaN"
| "fp_add (Fin a) (Fin b) = Fin (a + b)"
| "fp_add PInf NInf = NaN"
| "fp_add NInf PInf = NaN"
| "fp_add PInf y = PInf"
| "fp_add x PInf = PInf"
| "fp_add NInf y = NInf"
| "fp_add x NInf = NInf"

fun fp_mul :: "npfloat \<Rightarrow> npfloat \<Rightarrow> npfloat" where
  "fp_mul NaN y = NaN"
| "fp_mul x NaN = NaN"
| "fp_mul (Fin a) (Fin b) = Fin (a * b)"
| "fp_mul (Fin a) PInf = (if a = 0 then NaN else if 0 < a then PInf else NInf)"
| "fp_mul (Fin a) NInf = (if a = 0 then NaN else if 0 < a then NInf else PInf)"
| "fp_mul PInf (Fin b) = (if b = 0 then NaN else if 0 < b then PInf else NInf)"
| "fp_mul NInf (Fin b) = (if b = 0 then NaN else if 0 < b then NInf else PInf)"
| "fp_mul PInf PInf = PInf"
| "fp_mul PInf NInf = NInf"
| "fp_mul NInf PInf = NInf"
| "fp_mul NInf NInf = PInf"

text \<open>
  Division of numpy floats never raises: a finite nonzero number over zero is an
  infinity, zero over zero is \<open>nan\<close> (numpy only emits a RuntimeWarning).
\<close>

fun fp_div :: "npfloat \<Rightarrow> npfloat \<Rightarrow> npfloat" where
  "fp_div NaN y = NaN"
| "fp_div x NaN = NaN"
| "fp_div (Fin a) (Fin b) =
     (if b \<noteq> 0 then Fin (a / b)
      else if a = 0 then NaN else if 0 < a then PInf else NInf)"
| "fp_div (Fin a) PInf = Fin 0"
| "fp_div (Fin a) NInf = Fin 0"
| "fp_div PInf (Fin b) = (if 0 \<le> b then PInf else NInf)"
| "fp_div NInf (Fin b) = (if 0 \<le> b then NInf else PInf)"
| "fp_div PInf PInf = NaN"
| "fp_div PInf NInf = NaN"
| "fp_div NInf PInf = NaN"
| "fp_div NInf NInf = NaN"

text \<open>
  \<open>np.sum\<close> of a one-dimensional array; the sum of the empty array is \<open>0.0\<close>. Without
  rounding the order of the additions does not matter, also with special values.
\<close>

definition np_sum :: "npfloat list \<Rightarrow> npfloat" where
  "np_sum xs = foldl fp_add (Fin 0) xs"

text \<open>
  \<open>np.average(a, weights=w)\<close> for one-dimensional arrays of equal length: numpy sums
  the weights, raises ZeroDivisionError when that sum compares equal to \<open>0.0\<close>, and
  otherwise divides the sum of the products by it.
\<close>

definition np_average :: "npfloat list \<Rightarrow> npfloat list \<Rightarrow> py_error + npfloat" where
  "np_average a wgt =
     (let scl = np_sum wgt
      in if scl = Fin 0 then Inl ZeroDivisionError
         else Inr (fp_div (np_sum (map (\<lambda>(x, w). fp_mul x w) (zip a wgt))) scl))"

text \<open>\<open>np.mean\<close> of a list; of the empty list it is \<open>nan\<close>.\<close>

definition np_mean :: "npfloat list \<Rightarrow> npfloat" where
  "np_mean xs = fp_div (np_sum xs) (Fin (real (length xs)))"

subsection \<open>Samples and the bounded deque\<close>

type_synonym datetime = int
type_synonym timedelta = int

definition timedelta_days :: "int \<Rightarrow> timedelta" where
  "timedelta_days d = d * 86400 * 1000000"

definition timedelta_seconds :: "int \<Rightarrow> timedelta" where
  "timedelta_seconds s = s * 1000000"

record VehicleSample =
  comfort_score :: real
  confidence :: real
  vehicle_id :: string
  timestamp :: datetime
  speed :: real
  heading :: real

text \<open>
  \<open>collections.deque(maxlen=n)\<close>: the items, oldest first, and the bound.
  \<open>append\<close> adds on the right and, when the deque is then longer than \<open>maxlen\<close>,
  discards one item from the left.
\<close>

record 'a deque =
  maxlen :: nat
  items :: "'a list"

definition deque_new :: "nat \<Rightarrow> 'a deque" where
  "deque_new n = \<lparr>maxlen = n, items = []\<rparr>"

definition deque_append :: "'a deque \<Rightarrow> 'a \<Rightarrow> 'a deque" where
  "deque_append d x =
     (let ys = items d @ [x]
      in d\<lparr>items := (if maxlen d < length ys then tl ys else ys)\<rparr>)"

subsection \<open>SegmentBuffer\<close>

record SegmentBuffer =
  segment_id :: string
  samples :: "VehicleSample deque"
  aggregated_score :: npfloat
  last_updated :: datetime
  expires_at :: "datetime option"

text \<open>The dataclass constructor \<open>SegmentBuffer(segment_id=...)\<close> with its defaults.\<close>

definition SegmentBuffer_init :: "string \<Rightarrow> datetime \<Rightarrow> SegmentBuffer" where
  "SegmentBuffer_init sid now =
     \<lparr>segment_id = sid, samples = deque_new 10, aggregated_score = Fin (1/2),
      last_updated = now, expires_at = None\<rparr>"

text \<open>
  \<open>update_aggregation\<close> is the method \<open>_update_aggregation\<close>. On an empty window it
  returns before the expiry time is set. When \<open>np.average\<close> raises, no field has been
  assigned yet: the buffer is the one that \<open>add_sample\<close> passed in, with the sample
  already appended and \<open>last_updated\<close> already set. \<open>weights\<close> is bound twice, as in the source:
  first to the confidences, then to the confidences divided by their sum.
\<close>

definition update_aggregation ::
  "SegmentBuffer \<Rightarrow> (py_error \<times> SegmentBuffer) + SegmentBuffer" where
  "update_aggregation b =
     (if items (samples b) = [] then Inr (b\<lparr>aggregated_score := Fin (1/2)\<rparr>)
      else
        let scores = map (\<lambda>s. Fin (comfort_score s)) (items (samples b));
            weights = map (\<lambda>s. Fin (confidence s)) (items (samples b));
            weights = map (\<lambda>w. fp_div w (np_sum weights)) weights
        in case np_average scores weights of
             Inl e \<Rightarrow> Inl (e, b)
           | Inr avg \<Rightarrow>
               Inr (b\<lparr>aggregated_score := avg,
                      expires_at := Some (last_updated b + timedelta_days 30)\<rparr>))"

definition add_sample ::
  "SegmentBuffer \<Rightarrow> VehicleSample \<Rightarrow> datetime \<Rightarrow> (py_error \<times> SegmentBuffer) + SegmentBuffer" where
  "add_sample b sample now =
     update_aggregation (b\<lparr>samples := deque_append (samples b) sample, last_updated := now\<rparr>)"

definition is_valid :: "SegmentBuffer \<Rightarrow> datetime \<Rightarrow> bool" where
  "is_valid b now = (case expires_at b of None \<Rightarrow> False | Some e \<Rightarrow> now < e)"

definition is_finalized :: "SegmentBuffer \<Rightarrow> bool" where
  "is_finalized b = (10 \<le> length (items (samples b)))"

definition sample_count :: "SegmentBuffer \<Rightarrow> nat" where
  "sample_count b = length (items (samples b))"

definition average_confidence :: "SegmentBuffer \<Rightarrow> npfloat" where
  "average_confidence b =
     (if items (samples b) = [] then Fin 0
      else np_mean (map (\<lambda>s. Fin (confidence s)) (items (samples b))))"

subsection \<open>AggregationService\<close>

record AggregationService =
  BUFFER_LIMIT :: int
  TTL :: timedelta
  buffers :: "(string \<times> SegmentBuffer) list"

definition AggregationService_init :: "int \<Rightarrow> int \<Rightarrow> AggregationService" where
  "AggregationService_init segment_buffer_limit ttl_days =
     \<lparr>BUFFER_LIMIT = segment_buffer_limit, TTL = timedelta_days ttl_days, buffers = []\<rparr>"

text \<open>
  \<open>ingest_prediction\<close> returns the triple \<open>(aggregated_score, sample_count, is_finalized)\<close>
  and the service after the call. Its arguments are, in the order of the source,
  \<open>segment_id\<close>, \<open>comfort_score\<close>, \<open>confidence\<close>, \<open>vehicle_id\<close>, \<open>speed\<close>, \<open>heading\<close> and the
  optional \<open>timestamp\<close>, followed by the clock reading. A segment without a buffer gets
  a new one at the end of the dictionary; the buffer is then read back from the
  dictionary and updated in place. An exception of \<open>add_sample\<close> ends the call after
  the buffer was created and the sample appended: the result is then the exception and
  the service in that state.
\<close>

definition ingest_prediction ::
  "AggregationService \<Rightarrow> string \<Rightarrow> real \<Rightarrow> real \<Rightarrow> string \<Rightarrow> real \<Rightarrow> real \<Rightarrow>
   datetime option \<Rightarrow> datetime \<Rightarrow>
   (py_error \<times> AggregationService) + ((npfloat \<times> nat \<times> bool) \<times> AggregationService)" where
  "ingest_prediction svc sid score conf vid spd hdg ts now =
     (let ts' = (case ts of None \<Rightarrow> now | Some t \<Rightarrow> t);
          svc1 = (if map_of (buffers svc) sid = None
                  then svc\<lparr>buffers := AList.update sid (SegmentBuffer_init sid now) (buffers svc)\<rparr>
                  else svc)
      in case map_of (buffers svc1) sid of
           None \<Rightarrow> Inl (KeyError, svc1)
         | Some buffer \<Rightarrow>
             let sample = \<lparr>comfort_score = score, confidence = conf, vehicle_id = vid,
                           timestamp = ts', speed = spd, heading = hdg\<rparr>
             in case add_sample buffer sample now of
                  Inl (e, buffer') \<Rightarrow>
                    Inl (e, svc1\<lparr>buffers := AList.update sid buffer' (buffers svc1)\<rparr>)
                | Inr buffer' \<Rightarrow>
                    Inr ((aggregated_score buffer', sample_count buffer', is_finalized buffer'),
                         svc1\<lparr>buffers := AList.update sid buffer' (buffers svc1)\<rparr>))"

text \<open>The dictionary that \<open>get_segment_score\<close> and \<open>get_all_segments\<close> build per segment.\<close>

record segment_info =
  info_segment_id :: string
  info_comfort_score :: npfloat
  info_sample_count :: nat
  info_confidence :: npfloat
  info_last_updated :: datetime
  info_expires_at :: "datetime option"
  info_is_valid :: bool
  info_is_finalized :: bool

definition segment_dict :: "string \<Rightarrow> SegmentBuffer \<Rightarrow> datetime \<Rightarrow> segment_info" where
  "segment_dict sid b now =
     \<lparr>info_segment_id = sid, info_comfort_score = aggregated_score b,
      info_sample_count = sample_count b, info_confidence = average_confidence b,
      info_last_updated = last_updated b, info_expires_at = expires_at b,
      info_is_valid = is_valid b now, info_is_finalized = is_finalized b\<rparr>"

text \<open>
  The three read methods are written in the same state-passing style as the writers:
  they return their result and the service as the body leaves it.
\<close>

definition get_segment_score ::
  "AggregationService \<Rightarrow> string \<Rightarrow> datetime \<Rightarrow> segment_info option \<times> AggregationService" where
  "get_segment_score svc sid now =
     (case map_of (buffers svc) sid of
        None \<Rightarrow> (None, svc)
      | Some b \<Rightarrow> (Some (segment_dict sid b now), svc))"

definition get_all_segments ::
  "AggregationService \<Rightarrow> bool \<Rightarrow> bool \<Rightarrow> datetime \<Rightarrow> segment_info list \<times> AggregationService" where
  "get_all_segments svc include_invalid include_finalized_only now =
     (map (\<lambda>(sid, b). segment_dict sid b now)
        (filter (\<lambda>(sid, b). \<not> (include_finalized_only \<and> \<not> is_finalized b)
                           \<and> \<not> (\<not> include_invalid \<and> \<not> is_valid b now))
           (buffers svc)),
      svc)"

text \<open>Python's slice \<open>xs[:limit]\<close>; a negative \<open>limit\<close> counts from the end.\<close>

definition slice_to :: "'a list \<Rightarrow> int \<Rightarrow> 'a list" where
  "slice_to xs limit =
     (if limit < 0 then take (nat (int (length xs) + limit)) xs else take (nat limit) xs)"

record prediction =
  pred_vehicle_id :: string
  pred_comfort_score :: real
  pred_confidence :: real
  pred_timestamp :: datetime
  pred_speed :: real
  pred_heading :: real

definition prediction_dict :: "VehicleSample \<Rightarrow> prediction" where
  "prediction_dict s =
     \<lparr>pred_vehicle_id = vehicle_id s, pred_comfort_score = comfort_score s,
      pred_confidence = confidence s, pred_timestamp = timestamp s,
      pred_speed = speed s, pred_heading = heading s\<rparr>"

definition get_recent_predictions ::
  "AggregationService \<Rightarrow> string \<Rightarrow> int \<Rightarrow> prediction list \<times> AggregationService" where
  "get_recent_predictions svc sid limit =
     (case map_of (buffers svc) sid of
        None \<Rightarrow> ([], svc)
      | Some b \<Rightarrow> (map prediction_dict (slice_to (items (samples b)) limit), svc))"

text \<open>
  \<open>cleanup_expired\<close> collects the identifiers of the buffers that are not valid and then
  deletes them one by one; it returns how many identifiers it collected.
\<close>

definition cleanup_expired :: "AggregationService \<Rightarrow> datetime \<Rightarrow> nat \<times> AggregationService" where
  "cleanup_expired svc now =
     (let expired_ids = map fst (filter (\<lambda>(sid, b). \<not> is_valid b now) (buffers svc))
      in (length expired_ids,
          svc\<lparr>buffers := fold AList.delete expired_ids (buffers svc)\<rparr>))"

record stats =
  total_segments :: nat
  valid_segments :: nat
  finalized_segments :: nat
  avg_samples_per_segment :: npfloat
  avg_comfort_score :: npfloat
  finalization_rate :: real

text \<open>Python's \<open>/\<close> on two integers raises on a zero divisor.\<close>

definition py_truediv :: "nat \<Rightarrow> nat \<Rightarrow> py_error + real" where
  "py_truediv a b = (if b = 0 then Inl ZeroDivisionError else Inr (real a / real b))"

definition get_stats :: "AggregationService \<Rightarrow> datetime \<Rightarrow> py_error + stats" where
  "get_stats svc now =
     (let all_segments = map snd (buffers svc);
          valid = filter (\<lambda>b. is_valid b now) all_segments;
          finalized = filter is_finalized valid;
          avg_samples = (if valid \<noteq> [] then np_mean (map (\<lambda>b. Fin (real (sample_count b))) valid)
                         else Fin 0);
          avg_comfort = (if valid \<noteq> [] then np_mean (map aggregated_score valid)
                         else Fin (1/2))
      in case (if valid \<noteq> [] then py_truediv (length finalized) (length valid) else Inr 0) of
           Inl e \<Rightarrow> Inl e
         | Inr rate \<Rightarrow>
             Inr \<lparr>total_segments = length all_segments, valid_segments = length valid,
                  finalized_segments = length finalized,
                  avg_samples_per_segment = avg_samples, avg_comfort_score = avg_comfort,
                  finalization_rate = rate\<rparr>)"

subsection \<open>CacheManager (cloud/backend/cache.py)\<close>

record cache_entry =
  ce_comfort_score :: npfloat
  ce_sample_count :: nat
  ce_confidence :: real
  ce_cached_at :: datetime
  ce_expires_at :: datetime

record CacheManager =
  ttl_seconds :: int
  cache :: "(string \<times> cache_entry) list"

definition update_segment ::
  "CacheManager \<Rightarrow> string \<Rightarrow> npfloat \<Rightarrow> nat \<Rightarrow> real \<Rightarrow> datetime \<Rightarrow> CacheManager" where
  "update_segment cm sid score n conf now =
     cm\<lparr>cache := AList.update sid
        \<lparr>ce_comfort_score = score, ce_sample_count = n, ce_confidence = conf,
         ce_cached_at = now, ce_expires_at = now + timedelta_seconds (ttl_seconds cm)\<rparr>
        (cache cm)\<rparr>"

definition get_segment :: "CacheManager \<Rightarrow> string \<Rightarrow> datetime \<Rightarrow> cache_entry option \<times> CacheManager" where
  "get_segment cm sid now =
     (case map_of (cache cm) sid of
        None \<Rightarrow> (None, cm)
      | Some entry \<Rightarrow>
          if ce_expires_at entry < now then (None, cm\<lparr>cache := AList.delete sid (cache cm)\<rparr>)
          else (Some entry, cm))"

subsection \<open>Sequences of ingests to one segment\<close>

text \<open>
  One call of \<open>ingest_prediction\<close> for a fixed segment: the sample's fields, the optional
  timestamp argument and the clock reading of the call.
\<close>

record observation =
  obs_score :: real
  obs_confidence :: real
  obs_vehicle :: string
  obs_speed :: real
  obs_heading :: real
  obs_timestamp :: "datetime option"
  obs_now :: datetime

definition obs_sample :: "observation \<Rightarrow> VehicleSample" where
  "obs_sample ob =
     \<lparr>comfort_score = obs_score ob, confidence = obs_confidence ob, vehicle_id = obs_vehicle ob,
      timestamp = (case obs_timestamp ob of None \<Rightarrow> obs_now ob | Some t \<Rightarrow> t),
      speed = obs_speed ob, heading = obs_heading ob\<rparr>"

definition ingest_obs ::
  "AggregationService \<Rightarrow> string \<Rightarrow> observation \<Rightarrow>
   (py_error \<times> AggregationService) + ((npfloat \<times> nat \<times> bool) \<times> AggregationService)" where
  "ingest_obs svc sid ob =
     ingest_prediction svc sid (obs_score ob) (obs_confidence ob) (obs_vehicle ob)
       (obs_speed ob) (obs_heading ob) (obs_timestamp ob) (obs_now ob)"

text \<open>The calls are made in order; the sequence stops at the first call that raises.\<close>

fun ingest_all ::
  "AggregationService \<Rightarrow> string \<Rightarrow> observation list \<Rightarrow>
   (py_error \<times> AggregationService) + AggregationService" where
  "ingest_all svc sid [] = Inr svc"
| "ingest_all svc sid (ob # obs) =
     (case ingest_obs svc sid ob of
        Inl (e, svc') \<Rightarrow> Inl (e, svc')
      | Inr (r, svc') \<Rightarrow> ingest_all svc' sid obs)"

subsection \<open>The weighted mean in the words of the specification\<close>

text \<open>
  The confidence-weighted mean of a window: each sample's weight is its confidence
  divided by the sum of the confidences of the window, so that the weights sum to 1.
\<close>

definition spec_weights :: "VehicleSample list \<Rightarrow> real list" where
  "spec_weights xs = map (\<lambda>s. confidence s / sum_list (map confidence xs)) xs"

definition spec_weighted_mean :: "VehicleSample list \<Rightarrow> real" where
  "spec_weighted_mean xs = sum_list (map (\<lambda>(s, w). comfort_score s * w) (zip xs (spec_weights xs)))"

definition spec_unweighted_mean :: "VehicleSample list \<Rightarrow> real" where
  "spec_unweighted_mean xs = sum_list (map comfort_score xs) / real (length xs)"

subsection \<open>Observing the service after a sequence of ingests\<close>

text \<open>
  What a caller sees of one segment after the calls of \<open>ingest_all\<close>: the window, the
  aggregate, the sample count, the finalized flag and the answer of
  \<open>get_recent_predictions\<close>. \<open>None\<close> means that a call raised or that the segment has no
  buffer.
\<close>

definition window_after ::
  "AggregationService \<Rightarrow> string \<Rightarrow> observation list \<Rightarrow> VehicleSample list option" where
  "window_after svc sid obs =
     (case ingest_all svc sid obs of
        Inl e \<Rightarrow> None
      | Inr svc' \<Rightarrow> map_option (\<lambda>b. items (samples b)) (map_of (buffers svc') sid))"

definition aggregate_after ::
  "AggregationService \<Rightarrow> string \<Rightarrow> observation list \<Rightarrow> npfloat option" where
  "aggregate_after svc sid obs =
     (case ingest_all svc sid obs of
        Inl e \<Rightarrow> None
      | Inr svc' \<Rightarrow> map_option aggregated_score (map_of (buffers svc') sid))"

definition count_after :: "AggregationService \<Rightarrow> string \<Rightarrow> observation list \<Rightarrow> nat option" where
  "count_after svc sid obs =
     (case ingest_all svc sid obs of
        Inl e \<Rightarrow> None
      | Inr svc' \<Rightarrow> map_option sample_count (map_of (buffers svc') sid))"

definition finalized_after ::
  "AggregationService \<Rightarrow> string \<Rightarrow> observation list \<Rightarrow> bool option" where
  "finalized_after svc sid obs =
     (case ingest_all svc sid obs of
        Inl e \<Rightarrow> None
      | Inr svc' \<Rightarrow> map_option is_finalized (map_of (buffers svc') sid))"

definition recent_after ::
  "AggregationService \<Rightarrow> string \<Rightarrow> observation list \<Rightarrow> int \<Rightarrow> prediction list option" where
  "recent_after svc sid obs limit =
     (case ingest_all svc sid obs of
        Inl e \<Rightarrow> None
      | Inr svc' \<Rightarrow> Some (fst (get_recent_predictions svc' sid limit)))"

subsection \<open>Closed forms and invariants used in the proofs\<close>

text \<open>
  None of the definitions of this subsection is part of the program; each one names a
  term of the embedding so that the lemmas can speak about it. \<open>conf_sum\<close> is the real
  number that \<open>np.sum(weights)\<close> computes, \<open>normalized\<close> is the array
  \<open>weights / np.sum(weights)\<close> of \<open>update_aggregation\<close>.
\<close>

definition conf_sum :: "VehicleSample list \<Rightarrow> real" where
  "conf_sum xs = sum_list (map confidence xs)"

definition normalized :: "VehicleSample list \<Rightarrow> npfloat list" where
  "normalized xs =
     map (\<lambda>w. fp_div w (np_sum (map (\<lambda>s. Fin (confidence s)) xs)))
       (map (\<lambda>s. Fin (confidence s)) xs)"

text \<open>
  The score of a window in closed form: \<open>update_aggregation_eq\<close> below proves that it is
  what \<open>update_aggregation\<close> stores.
\<close>

definition window_score :: "VehicleSample list \<Rightarrow> npfloat" where
  "window_score xs =
     (if xs = [] then Fin (1/2)
      else if conf_sum xs = 0 then NaN
      else Fin (spec_weighted_mean xs))"

text \<open>The last \<open>n\<close> elements of a list.\<close>

definition last_n :: "nat \<Rightarrow> 'a list \<Rightarrow> 'a list" where
  "last_n n xs = drop (length xs - n) xs"

text \<open>
  The buffer that \<open>ingest_prediction\<close> works on (the one of the dictionary, or a new one),
  and the buffer that \<open>add_sample\<close> leaves, in closed form.
\<close>

definition lookup_buffer :: "AggregationService \<Rightarrow> string \<Rightarrow> datetime \<Rightarrow> SegmentBuffer" where
  "lookup_buffer svc sid now =
     (case map_of (buffers svc) sid of None \<Rightarrow> SegmentBuffer_init sid now | Some b \<Rightarrow> b)"

definition buffer_added :: "SegmentBuffer \<Rightarrow> VehicleSample \<Rightarrow> datetime \<Rightarrow> SegmentBuffer" where
  "buffer_added b s now =
     (let d = deque_append (samples b) s
      in if items d = [] then b\<lparr>samples := d, aggregated_score := Fin (1/2), last_updated := now\<rparr>
         else b\<lparr>samples := d, aggregated_score := window_score (items d), last_updated := now,
                expires_at := Some (now + timedelta_days 30)\<rparr>)"

definition current_items :: "AggregationService \<Rightarrow> string \<Rightarrow> VehicleSample list" where
  "current_items svc sid =
     (case map_of (buffers svc) sid of None \<Rightarrow> [] | Some b \<Rightarrow> items (samples b))"

definition window_bounded :: "AggregationService \<Rightarrow> string \<Rightarrow> bool" where
  "window_bounded svc sid =
     (case map_of (buffers svc) sid of
        None \<Rightarrow> True
      | Some b \<Rightarrow> maxlen (samples b) = 10 \<and> length (items (samples b)) \<le> 10)"

text \<open>
  The invariant of the service: the keys of the dictionary are distinct, and every
  buffer is stored under its own identifier, has the deque bound 10, holds between 1 and
  10 samples, carries the score of its window and expires 30 days after its last update.
  The states that the public methods can produce from a new service are the
  \<open>reachable\<close> ones, the state that a raising \<open>ingest_prediction\<close> leaves included;
  they satisfy the invariant (\<open>reachable_svc_ok\<close>).
\<close>

definition buffer_ok :: "string \<Rightarrow> SegmentBuffer \<Rightarrow> bool" where
  "buffer_ok sid b \<longleftrightarrow>
     segment_id b = sid \<and> maxlen (samples b) = 10 \<and> items (samples b) \<noteq> [] \<and>
     length (items (samples b)) \<le> 10 \<and>
     aggregated_score b = window_score (items (samples b)) \<and>
     expires_at b = Some (last_updated b + timedelta_days 30)"

definition svc_ok :: "AggregationService \<Rightarrow> bool" where
  "svc_ok svc \<longleftrightarrow>
     distinct (map fst (buffers svc)) \<and> list_all (\<lambda>(sid, b). buffer_ok sid b) (buffers svc)"

inductive reachable :: "AggregationService \<Rightarrow> bool" where
  created: "reachable (AggregationService_init n t)"
| ingested: "reachable svc \<Longrightarrow>
     ingest_prediction svc sid score conf vid spd hdg ts now = Inr (r, svc') \<Longrightarrow> reachable svc'"
| raised: "reachable svc \<Longrightarrow>
     ingest_prediction svc sid score conf vid spd hdg ts now = Inl (e, svc') \<Longrightarrow> reachable svc'"
| swept: "reachable svc \<Longrightarrow> reachable (snd (cleanup_expired svc now))"

code_pred reachable .

text \<open>
  The values for which the exact arithmetic of the embedding is the arithmetic of the
  code up to rounding: a sample is \<open>sample_safe\<close> when its confidence is not negative and
  its score and confidence are at most \<open>10^300\<close> in magnitude. Ten such confidences sum
  to at most \<open>10^301\<close>, inside the range of a float; unless all confidences are 0 the
  normalised weights are then between 0 and 1 and the largest of them is about 1/10 or
  more, so that their sum is not zero and \<open>np.average\<close> does not raise.
\<close>

definition float_safe :: "real \<Rightarrow> bool" where
  "float_safe x \<longleftrightarrow> \<bar>x\<bar> \<le> 10 ^ 300"

definition sample_safe :: "VehicleSample \<Rightarrow> bool" where
  "sample_safe s \<longleftrightarrow>
     0 \<le> confidence s \<and> float_safe (confidence s) \<and> float_safe (comfort_score s)"

subsection \<open>Example inputs\<close>

text \<open>
  \<open>obs_at\<close> is a call of \<open>ingest_prediction\<close> that leaves \<open>speed\<close>, \<open>heading\<close> and
  \<open>timestamp\<close> at their defaults. \<open>spec_example\<close> is the example of the specification
  and of tests/test_core.py: scores 0.7, 0.8, 0.6 with confidences 0.9, 0.95, 0.8, one
  second apart. \<open>example_store\<close> is a service after one ingest at time 0, \<open>full_store\<close>
  one whose segment holds 10 samples, \<open>short_ttl_store\<close> a service constructed with
  \<open>ttl_days = 1\<close> after one ingest at time 0.
\<close>

definition obs_at :: "real \<Rightarrow> real \<Rightarrow> string \<Rightarrow> datetime \<Rightarrow> observation" where
  "obs_at score conf vid now =
     \<lparr>obs_score = score, obs_confidence = conf, obs_vehicle = vid, obs_speed = 0,
      obs_heading = 0, obs_timestamp = None, obs_now = now\<rparr>"

definition spec_example :: "observation list" where
  "spec_example =
     [obs_at (7/10) (9/10) ''vehicle_0'' 0,
      obs_at (8/10) (95/100) ''vehicle_1'' 1000000,
      obs_at (6/10) (8/10) ''vehicle_2'' 2000000]"

definition eleven_obs :: "observation list" where
  "eleven_obs = map (\<lambda>n. obs_at (real n / 10) (1/2) ''vehicle'' (int n)) [0..<11]"

definition example_store :: AggregationService where
  "example_store =
     \<lparr>BUFFER_LIMIT = 10, TTL = timedelta_days 30,
      buffers = [(''seg_001'',
        \<lparr>segment_id = ''seg_001'',
         samples = \<lparr>maxlen = 10,
                    items = [\<lparr>comfort_score = 7/10, confidence = 9/10, vehicle_id = ''vehicle_0'',
                              timestamp = 0, speed = 0, heading = 0\<rparr>]\<rparr>,
         aggregated_score = Fin (7/10), last_updated = 0,
         expires_at = Some (timedelta_days 30)\<rparr>)]\<rparr>"

definition full_store :: AggregationService where
  "full_store =
     \<lparr>BUFFER_LIMIT = 10, TTL = timedelta_days 30,
      buffers = [(''seg_001'',
        \<lparr>segment_id = ''seg_001'',
         samples = \<lparr>maxlen = 10,
                    items = replicate 10
                             \<lparr>comfort_score = 1/2, confidence = 1/2, vehicle_id = ''vehicle_0'',
                              timestamp = 0, speed = 0, heading = 0\<rparr>\<rparr>,
         aggregated_score = Fin (1/2), last_updated = 0,
         expires_at = Some (timedelta_days 30)\<rparr>)]\<rparr>"

definition short_ttl_store :: AggregationService where
  "short_ttl_store =
     \<lparr>BUFFER_LIMIT = 10, TTL = timedelta_days 1,
      buffers = [(''seg_001'',
        \<lparr>segment_id = ''seg_001'',
         samples = \<lparr>maxlen = 10,
                    items = [\<lparr>comfort_score = 7/10, confidence = 9/10, vehicle_id = ''vehicle_0'',
                              timestamp = 0, speed = 0, heading = 0\<rparr>]\<rparr>,
         aggregated_score = Fin (7/10), last_updated = 0,
         expires_at = Some (timedelta_days 30)\<rparr>)]\<rparr>"

section \<open>Auxiliary lemmas\<close>

lemma foldl_fp_add_Fin: "foldl fp_add (Fin a) (map Fin xs) = Fin (a + sum_list xs)"
  by (induction xs arbitrary: a) (simp_all add: add.assoc)

lemma np_sum_Fin: "np_sum (map Fin xs) = Fin (sum_list xs)"
  by (simp add: np_sum_def foldl_fp_add_Fin)

lemma fp_div_NaN_right [simp]: "fp_div x NaN = NaN"
  by (cases x) simp_all

lemma fp_add_NaN_right [simp]: "fp_add x NaN = NaN"
  by (cases x) simp_all

lemma foldl_fp_add_NaN: "foldl fp_add NaN xs = NaN"
  by (induction xs) simp_all

lemma foldl_fp_add_mem_NaN: "NaN \<in> set xs \<Longrightarrow> foldl fp_add a xs = NaN"
  by (induction xs arbitrary: a) (auto simp: foldl_fp_add_NaN)

lemma foldl_fp_add_PInf: "foldl fp_add PInf xs = (if NaN \<in> set xs \<or> NInf \<in> set xs then NaN else PInf)"
proof (induction xs)
  case Nil show ?case by simp
next
  case (Cons x xs) then show ?case by (cases x) (auto simp: foldl_fp_add_NaN)
qed

lemma foldl_fp_add_NInf: "foldl fp_add NInf xs = (if NaN \<in> set xs \<or> PInf \<in> set xs then NaN else NInf)"
proof (induction xs)
  case Nil show ?case by simp
next
  case (Cons x xs) then show ?case by (cases x) (auto simp: foldl_fp_add_NaN)
qed

lemma foldl_fp_add_both: "PInf \<in> set xs \<Longrightarrow> NInf \<in> set xs \<Longrightarrow> foldl fp_add a xs = NaN"
proof (induction xs arbitrary: a)
  case Nil then show ?case by simp
next
  case (Cons x xs) then show ?case
    by (cases x; cases a) (auto simp: foldl_fp_add_NaN foldl_fp_add_PInf foldl_fp_add_NInf)
qed

lemma sum_list_pos_real:
  fixes cs :: "real list"
  shows "cs \<noteq> [] \<Longrightarrow> \<forall>c\<in>set cs. 0 < c \<Longrightarrow> 0 < sum_list cs"
proof (induction cs)
  case Nil then show ?case by simp
next
  case (Cons c cs)
  have "0 \<le> sum_list cs" using Cons.prems(2) by (intro sum_list_nonneg) (simp add: less_imp_le)
  moreover have "0 < c" using Cons.prems(2) by simp
  ultimately show ?case by simp
qed

lemma sum_list_neg_real:
  fixes cs :: "real list"
  shows "cs \<noteq> [] \<Longrightarrow> \<forall>c\<in>set cs. c < 0 \<Longrightarrow> sum_list cs < 0"
proof (induction cs)
  case Nil then show ?case by simp
next
  case (Cons c cs)
  have "sum_list cs \<le> 0" using Cons.prems(2) by (intro sum_list_nonpos) (simp add: less_imp_le)
  moreover have "c < 0" using Cons.prems(2) by simp
  ultimately show ?case by simp
qed

lemma sum_list_zero_cases:
  fixes cs :: "real list"
  assumes "cs \<noteq> []" "sum_list cs = 0"
  shows "0 \<in> set cs \<or> ((\<exists>c\<in>set cs. 0 < c) \<and> (\<exists>c\<in>set cs. c < 0))"
proof (rule ccontr)
  assume n: "\<not> ?thesis"
  then have nz: "\<forall>c\<in>set cs. c \<noteq> 0" by auto
  from n have "(\<forall>c\<in>set cs. 0 < c) \<or> (\<forall>c\<in>set cs. c < 0)"
    using nz by (metis linorder_neqE_linordered_idom)
  then show False
    using sum_list_pos_real [OF assms(1)] sum_list_neg_real [OF assms(1)] assms(2) by auto
qed

lemma np_sum_conf: "np_sum (map (\<lambda>s. Fin (confidence s)) xs) = Fin (conf_sum xs)"
  using np_sum_Fin [of "map confidence xs"] by (simp add: conf_sum_def comp_def)

lemma normalized_nonzero:
  "conf_sum xs \<noteq> 0 \<Longrightarrow> normalized xs = map Fin (map (\<lambda>s. confidence s / conf_sum xs) xs)"
  by (simp add: normalized_def np_sum_conf comp_def)

lemma normalized_mem:
  "s \<in> set xs \<Longrightarrow> fp_div (Fin (confidence s)) (Fin (conf_sum xs)) \<in> set (normalized xs)"
  unfolding normalized_def np_sum_conf set_map by (intro imageI)

lemma normalized_zero_sum:
  assumes "xs \<noteq> []" "conf_sum xs = 0"
  shows "np_sum (normalized xs) = NaN"
proof -
  have ne: "map confidence xs \<noteq> []" using assms(1) by simp
  have z: "sum_list (map confidence xs) = 0" using assms(2) by (simp add: conf_sum_def)
  from sum_list_zero_cases [OF ne z]
  consider (zero) s where "s \<in> set xs" "confidence s = 0"
    | (mixed) s t where "s \<in> set xs" "0 < confidence s" "t \<in> set xs" "confidence t < 0"
    by auto
  then show ?thesis
  proof cases
    case zero
    have "NaN \<in> set (normalized xs)"
      using normalized_mem [OF zero(1)] zero(2) assms(2) by simp
    then show ?thesis by (simp add: np_sum_def foldl_fp_add_mem_NaN)
  next
    case mixed
    have p: "PInf \<in> set (normalized xs)"
      using normalized_mem [OF mixed(1)] mixed(2) assms(2) by simp
    have n: "NInf \<in> set (normalized xs)"
      using normalized_mem [OF mixed(3)] mixed(4) assms(2) by simp
    show ?thesis using p n by (simp add: np_sum_def foldl_fp_add_both)
  qed
qed

lemma sum_list_divide_const:
  fixes f :: "'a \<Rightarrow> real"
  shows "sum_list (map (\<lambda>s. f s / d) xs) = sum_list (map f xs) / d"
  by (induction xs) (simp_all add: add_divide_distrib)

lemma sum_normalized_one:
  "conf_sum xs \<noteq> 0 \<Longrightarrow> sum_list (map (\<lambda>s. confidence s / conf_sum xs) xs) = 1"
  by (simp add: sum_list_divide_const conf_sum_def)

lemma spec_weights_sum_one:
  "conf_sum xs \<noteq> 0 \<Longrightarrow> sum_list (spec_weights xs) = 1"
  by (simp add: spec_weights_def sum_list_divide_const conf_sum_def)

lemma zip_map_same: "zip (map f xs) (map g xs) = map (\<lambda>x. (f x, g x)) xs"
  by (induction xs) simp_all

lemma products_nonzero:
  "map (\<lambda>(x, w). fp_mul x w)
     (zip (map (\<lambda>s. Fin (comfort_score s)) xs) (map Fin (map (\<lambda>s. confidence s / d) xs)))
   = map Fin (map (\<lambda>s. comfort_score s * (confidence s / d)) xs)"
  by (induction xs) simp_all

lemma spec_weighted_mean_alt:
  "spec_weighted_mean xs = sum_list (map (\<lambda>s. comfort_score s * (confidence s / conf_sum xs)) xs)"
proof -
  have "zip xs (spec_weights xs) = map (\<lambda>s. (s, confidence s / conf_sum xs)) xs"
    using zip_map_same [of "\<lambda>s. s" xs] by (simp add: spec_weights_def conf_sum_def)
  then show ?thesis by (simp add: spec_weighted_mean_def comp_def)
qed

lemma np_average_window:
  assumes "xs \<noteq> []"
  shows "np_average (map (\<lambda>s. Fin (comfort_score s)) xs) (normalized xs) = Inr (window_score xs)"
proof (cases "conf_sum xs = 0")
  case True
  then show ?thesis
    using assms normalized_zero_sum [OF assms True]
    by (simp add: np_average_def window_score_def)
next
  case False
  have s: "np_sum (normalized xs) = Fin 1"
    using False by (simp add: normalized_nonzero np_sum_Fin sum_normalized_one del: map_map)
  have p: "np_sum (map (\<lambda>(x, w). fp_mul x w) (zip (map (\<lambda>s. Fin (comfort_score s)) xs) (normalized xs)))
        = Fin (spec_weighted_mean xs)"
    using False by (simp add: normalized_nonzero products_nonzero np_sum_Fin spec_weighted_mean_alt del: map_map)
  show ?thesis using False assms by (simp add: np_average_def s p window_score_def)
qed

lemma update_aggregation_eq:
  "update_aggregation b =
     Inr (if items (samples b) = [] then b\<lparr>aggregated_score := Fin (1/2)\<rparr>
          else b\<lparr>aggregated_score := window_score (items (samples b)),
                 expires_at := Some (last_updated b + timedelta_days 30)\<rparr>)"
  using np_average_window [of "items (samples b)"]
  by (simp add: update_aggregation_def Let_def normalized_def)

lemma add_sample_eq: "add_sample b s now = Inr (buffer_added b s now)"
  by (simp add: add_sample_def update_aggregation_eq buffer_added_def Let_def)

lemma ingest_prediction_eq:
  "ingest_prediction svc sid score conf vid spd hdg ts now =
     (let b' = buffer_added (lookup_buffer svc sid now)
                 \<lparr>comfort_score = score, confidence = conf, vehicle_id = vid,
                  timestamp = (case ts of None \<Rightarrow> now | Some t \<Rightarrow> t), speed = spd, heading = hdg\<rparr> now
      in Inr ((aggregated_score b', sample_count b', is_finalized b'),
              svc\<lparr>buffers := AList.update sid b' (buffers svc)\<rparr>))"
  by (cases "map_of (buffers svc) sid")
    (simp_all add: ingest_prediction_def add_sample_eq lookup_buffer_def Let_def update_conv')

lemma ingest_obs_eq:
  "ingest_obs svc sid ob =
     (let b' = buffer_added (lookup_buffer svc sid (obs_now ob)) (obs_sample ob) (obs_now ob)
      in Inr ((aggregated_score b', sample_count b', is_finalized b'),
              svc\<lparr>buffers := AList.update sid b' (buffers svc)\<rparr>))"
  by (simp add: ingest_obs_def ingest_prediction_eq obs_sample_def)

lemma last_n_nonempty: "0 < n \<Longrightarrow> xs \<noteq> [] \<Longrightarrow> last_n n xs \<noteq> []"
proof -
  assume "0 < n" "xs \<noteq> []"
  then have "length xs - n < length xs" by (cases xs) simp_all
  then show ?thesis by (simp add: last_n_def)
qed

lemma last_n_short: "length xs \<le> n \<Longrightarrow> last_n n xs = xs"
  by (simp add: last_n_def)

lemma last_n_last_n: "last_n n (last_n n xs @ ys) = last_n n (xs @ ys)"
proof (cases "length xs \<le> n")
  case True
  then show ?thesis by (simp add: last_n_short)
next
  case False
  then have l: "length (drop (length xs - n) xs) = n" by simp
  have "last_n n (last_n n xs @ ys) = drop (length ys) (drop (length xs - n) xs @ ys)"
    unfolding last_n_def length_append l by simp
  also have "\<dots> = drop (length ys) (drop (length xs - n) (xs @ ys))" by simp
  also have "\<dots> = drop (length ys + (length xs - n)) (xs @ ys)" by (simp only: drop_drop)
  also have "length ys + (length xs - n) = length (xs @ ys) - n" using False by simp
  finally show ?thesis by (simp only: last_n_def)
qed

lemma items_deque_append:
  assumes "maxlen d = 10" "length (items d) \<le> 10"
  shows "items (deque_append d x) = last_n 10 (items d @ [x])"
proof (cases "length (items d) = 10")
  case True
  then have "last_n 10 (items d @ [x]) = drop 1 (items d @ [x])" by (simp add: last_n_def)
  also have "\<dots> = tl (items d @ [x])" by (simp only: One_nat_def drop_Suc drop_0)
  finally show ?thesis using True assms(1) by (simp add: deque_append_def Let_def)
next
  case False
  then have "length (items d) < 10" using assms(2) by simp
  then show ?thesis using assms(1) by (simp add: deque_append_def Let_def last_n_def)
qed

lemma length_last_n: "length (last_n n xs) = min n (length xs)"
  by (simp add: last_n_def)

lemma buffer_added_ok:
  assumes "maxlen (samples b) = 10" "length (items (samples b)) \<le> 10"
  shows "items (samples (buffer_added b s now)) = last_n 10 (items (samples b) @ [s])"
    and "maxlen (samples (buffer_added b s now)) = 10"
    and "aggregated_score (buffer_added b s now) = window_score (last_n 10 (items (samples b) @ [s]))"
    and "last_updated (buffer_added b s now) = now"
    and "expires_at (buffer_added b s now) = Some (now + timedelta_days 30)"
    and "segment_id (buffer_added b s now) = segment_id b"
proof -
  have i: "items (deque_append (samples b) s) = last_n 10 (items (samples b) @ [s])"
    using assms by (rule items_deque_append)
  have ne: "last_n 10 (items (samples b) @ [s]) \<noteq> []" by (simp add: last_n_nonempty)
  show "items (samples (buffer_added b s now)) = last_n 10 (items (samples b) @ [s])"
    using i ne by (simp add: buffer_added_def Let_def)
  show "maxlen (samples (buffer_added b s now)) = 10"
    using assms(1) by (simp add: buffer_added_def Let_def deque_append_def)
  show "aggregated_score (buffer_added b s now) = window_score (last_n 10 (items (samples b) @ [s]))"
    using i ne by (simp add: buffer_added_def Let_def)
  show "last_updated (buffer_added b s now) = now"
    by (simp add: buffer_added_def Let_def)
  show "expires_at (buffer_added b s now) = Some (now + timedelta_days 30)"
    using i ne by (simp add: buffer_added_def Let_def)
  show "segment_id (buffer_added b s now) = segment_id b"
    by (simp add: buffer_added_def Let_def)
qed

lemma lookup_buffer_bounded:
  assumes "window_bounded svc sid"
  shows "maxlen (samples (lookup_buffer svc sid now)) = 10"
    and "length (items (samples (lookup_buffer svc sid now))) \<le> 10"
    and "items (samples (lookup_buffer svc sid now)) = current_items svc sid"
  using assms
  by (auto simp: window_bounded_def lookup_buffer_def current_items_def SegmentBuffer_init_def
      deque_new_def split: option.splits)

lemma ingest_obs_step:
  assumes "window_bounded svc sid"
  obtains r b where
    "ingest_obs svc sid ob = Inr (r, svc\<lparr>buffers := AList.update sid b (buffers svc)\<rparr>)"
    "r = (aggregated_score b, sample_count b, is_finalized b)"
    "items (samples b) = last_n 10 (current_items svc sid @ [obs_sample ob])"
    "maxlen (samples b) = 10"
    "aggregated_score b = window_score (items (samples b))"
    "last_updated b = obs_now ob"
    "expires_at b = Some (obs_now ob + timedelta_days 30)"
    "segment_id b = segment_id (lookup_buffer svc sid (obs_now ob))"
proof -
  let ?b0 = "lookup_buffer svc sid (obs_now ob)"
  let ?b = "buffer_added ?b0 (obs_sample ob) (obs_now ob)"
  note lb = lookup_buffer_bounded [OF assms, of "obs_now ob"]
  note ba = buffer_added_ok [OF lb(1) lb(2), of "obs_sample ob" "obs_now ob"]
  show thesis
  proof (rule that [of "(aggregated_score ?b, sample_count ?b, is_finalized ?b)" ?b])
    show "ingest_obs svc sid ob =
      Inr ((aggregated_score ?b, sample_count ?b, is_finalized ?b),
           svc\<lparr>buffers := AList.update sid ?b (buffers svc)\<rparr>)"
      by (simp add: ingest_obs_eq Let_def)
    show "items (samples ?b) = last_n 10 (current_items svc sid @ [obs_sample ob])"
      using ba(1) lb(3) by simp
    show "aggregated_score ?b = window_score (items (samples ?b))"
      using ba(1) ba(3) by simp
  qed (simp_all add: ba)
qed

lemma ingest_all_window:
  assumes "window_bounded svc sid" "obs \<noteq> []"
  shows "\<exists>svc' b. ingest_all svc sid obs = Inr svc' \<and> map_of (buffers svc') sid = Some b
           \<and> items (samples b) = last_n 10 (current_items svc sid @ map obs_sample obs)
           \<and> maxlen (samples b) = 10
           \<and> aggregated_score b = window_score (items (samples b))
           \<and> last_updated b = obs_now (last obs)
           \<and> expires_at b = Some (obs_now (last obs) + timedelta_days 30)
           \<and> (\<forall>k. k \<noteq> sid \<longrightarrow> map_of (buffers svc') k = map_of (buffers svc) k)"
  using assms
proof (induction obs arbitrary: svc)
  case Nil
  then show ?case by simp
next
  case (Cons ob obs)
  from ingest_obs_step [OF Cons.prems(1), of ob] obtain r b where
    st: "ingest_obs svc sid ob = Inr (r, svc\<lparr>buffers := AList.update sid b (buffers svc)\<rparr>)"
    and it: "items (samples b) = last_n 10 (current_items svc sid @ [obs_sample ob])"
    and ml: "maxlen (samples b) = 10"
    and ag: "aggregated_score b = window_score (items (samples b))"
    and lu: "last_updated b = obs_now ob"
    and ex: "expires_at b = Some (obs_now ob + timedelta_days 30)"
    by blast
  let ?svc1 = "svc\<lparr>buffers := AList.update sid b (buffers svc)\<rparr>"
  have m1: "map_of (buffers ?svc1) sid = Some b" by (simp add: update_conv')
  have fr: "\<And>k. k \<noteq> sid \<Longrightarrow> map_of (buffers ?svc1) k = map_of (buffers svc) k"
    by (simp add: update_conv')
  show ?case
  proof (cases "obs = []")
    case True
    then show ?thesis using st m1 it ml ag lu ex fr by simp
  next
    case False
    have wb: "window_bounded ?svc1 sid"
      using m1 ml it by (simp add: window_bounded_def length_last_n)
    have ci: "current_items ?svc1 sid = last_n 10 (current_items svc sid @ [obs_sample ob])"
      using m1 it by (simp add: current_items_def)
    from Cons.IH [OF wb False] obtain svc' b' where
      r: "ingest_all ?svc1 sid obs = Inr svc'" "map_of (buffers svc') sid = Some b'"
         "items (samples b') = last_n 10 (current_items ?svc1 sid @ map obs_sample obs)"
         "maxlen (samples b') = 10"
         "aggregated_score b' = window_score (items (samples b'))"
         "last_updated b' = obs_now (last obs)"
         "expires_at b' = Some (obs_now (last obs) + timedelta_days 30)"
         "\<forall>k. k \<noteq> sid \<longrightarrow> map_of (buffers svc') k = map_of (buffers ?svc1) k"
      by blast
    have "items (samples b') = last_n 10 (current_items svc sid @ map obs_sample (ob # obs))"
      using r(3) ci by (simp add: last_n_last_n)
    moreover have "ingest_all svc sid (ob # obs) = Inr svc'" using st r(1) by simp
    moreover have "\<forall>k. k \<noteq> sid \<longrightarrow> map_of (buffers svc') k = map_of (buffers svc) k"
      using r(8) fr by simp
    ultimately show ?thesis using r(2) r(4) r(5) r(6) r(7) False by simp
  qed
qed

lemma window_bounded_absent: "map_of (buffers svc) sid = None \<Longrightarrow> window_bounded svc sid"
  by (simp add: window_bounded_def)

lemma current_items_absent: "map_of (buffers svc) sid = None \<Longrightarrow> current_items svc sid = []"
  by (simp add: current_items_def)

lemma fresh_window:
  assumes "map_of (buffers svc) sid = None" "obs \<noteq> []"
  shows "window_after svc sid obs = Some (last_n 10 (map obs_sample obs))"
    and "aggregate_after svc sid obs = Some (window_score (last_n 10 (map obs_sample obs)))"
    and "finalized_after svc sid obs = Some (10 \<le> length obs)"
proof -
  from ingest_all_window [OF window_bounded_absent [OF assms(1)] assms(2)]
  obtain svc' b where r: "ingest_all svc sid obs = Inr svc'" "map_of (buffers svc') sid = Some b"
    "items (samples b) = last_n 10 (map obs_sample obs)"
    "aggregated_score b = window_score (items (samples b))"
    using current_items_absent [OF assms(1)] by auto
  show "window_after svc sid obs = Some (last_n 10 (map obs_sample obs))"
    using r by (simp add: window_after_def)
  show "aggregate_after svc sid obs = Some (window_score (last_n 10 (map obs_sample obs)))"
    using r by (simp add: aggregate_after_def)
  show "finalized_after svc sid obs = Some (10 \<le> length obs)"
    using r by (simp add: finalized_after_def is_finalized_def length_last_n)
qed

lemma set_update_subset: "p \<in> set (AList.update k v al) \<Longrightarrow> p = (k, v) \<or> p \<in> set al"
  by (induction al) (auto split: if_splits)

lemma lookup_buffer_segment_id:
  assumes "svc_ok svc"
  shows "segment_id (lookup_buffer svc sid now) = sid"
proof (cases "map_of (buffers svc) sid")
  case None
  then show ?thesis by (simp add: lookup_buffer_def SegmentBuffer_init_def)
next
  case (Some b)
  then have "(sid, b) \<in> set (buffers svc)" by (rule map_of_SomeD)
  then have "buffer_ok sid b" using assms by (auto simp: svc_ok_def list_all_iff)
  then show ?thesis using Some by (simp add: lookup_buffer_def buffer_ok_def)
qed

lemma svc_ok_window_bounded: 
  assumes "svc_ok svc" shows "window_bounded svc sid"
proof (cases "map_of (buffers svc) sid")
  case None then show ?thesis by (simp add: window_bounded_def)
next
  case (Some b)
  then have "(sid, b) \<in> set (buffers svc)" by (rule map_of_SomeD)
  then have "buffer_ok sid b" using assms by (auto simp: svc_ok_def list_all_iff)
  then show ?thesis using Some by (simp add: window_bounded_def buffer_ok_def)
qed

lemma svc_ok_init: "svc_ok (AggregationService_init n t)"
  by (simp add: svc_ok_def AggregationService_init_def)

lemma svc_ok_ingest:
  assumes "svc_ok svc" "ingest_prediction svc sid score conf vid spd hdg ts now = Inr (r, svc')"
  shows "svc_ok svc'"
proof -
  let ?s = "\<lparr>comfort_score = score, confidence = conf, vehicle_id = vid,
             timestamp = (case ts of None \<Rightarrow> now | Some t \<Rightarrow> t), speed = spd, heading = hdg\<rparr>"
  let ?b0 = "lookup_buffer svc sid now"
  let ?b = "buffer_added ?b0 ?s now"
  have s': "svc' = svc\<lparr>buffers := AList.update sid ?b (buffers svc)\<rparr>"
    using assms(2) by (simp add: ingest_prediction_eq Let_def)
  note lb = lookup_buffer_bounded [OF svc_ok_window_bounded [OF assms(1)], of sid now]
  note ba = buffer_added_ok [OF lb(1) lb(2), of ?s now]
  have ok: "buffer_ok sid ?b"
    unfolding buffer_ok_def ba
    by (simp add: lookup_buffer_segment_id [OF assms(1)] last_n_nonempty length_last_n)
  have d: "distinct (map fst (AList.update sid ?b (buffers svc)))"
    using assms(1) by (simp add: svc_ok_def distinct_update)
  have "\<forall>p \<in> set (AList.update sid ?b (buffers svc)). case p of (k, b) \<Rightarrow> buffer_ok k b"
  proof
    fix p assume "p \<in> set (AList.update sid ?b (buffers svc))"
    then have "p = (sid, ?b) \<or> p \<in> set (buffers svc)" by (rule set_update_subset)
    then show "case p of (k, b) \<Rightarrow> buffer_ok k b"
      using ok assms(1) by (auto simp: svc_ok_def list_all_iff)
  qed
  then show ?thesis using d by (simp add: s' svc_ok_def list_all_iff)
qed

lemma fold_delete_filter: "fold AList.delete ks al = filter (\<lambda>p. fst p \<notin> set ks) al"
proof (induction ks arbitrary: al)
  case Nil show ?case by simp
next
  case (Cons k ks)
  have "AList.delete k al = filter (\<lambda>p. fst p \<noteq> k) al"
    by (simp add: AList.delete_eq case_prod_unfold eq_commute)
  then show ?case using Cons.IH by (simp add: conj_commute)
qed

lemma expired_filter:
  assumes "distinct (map fst al)"
  shows "filter (\<lambda>p. fst p \<notin> set (map fst (filter P al))) al = filter (\<lambda>p. \<not> P p) al"
proof (rule filter_cong [OF refl])
  fix p assume p: "p \<in> set al"
  have "fst p \<in> set (map fst (filter P al)) \<longleftrightarrow> P p"
  proof
    assume "fst p \<in> set (map fst (filter P al))"
    then obtain q where q: "q \<in> set al" "P q" "fst q = fst p" by auto
    then have "q = p" using assms p by (metis eq_key_imp_eq_value prod.collapse)
    then show "P p" using q by simp
  next
    assume "P p" then show "fst p \<in> set (map fst (filter P al))" using p by auto
  qed
  then show "(fst p \<notin> set (map fst (filter P al))) = (\<not> P p)" by simp
qed

lemma cleanup_expired_eq:
  assumes "distinct (map fst (buffers svc))"
  shows "cleanup_expired svc now =
     (length (filter (\<lambda>(sid, b). \<not> is_valid b now) (buffers svc)),
      svc\<lparr>buffers := filter (\<lambda>(sid, b). is_valid b now) (buffers svc)\<rparr>)"
proof -
  have "filter (\<lambda>p. \<not> (case p of (sid, b) \<Rightarrow> \<not> is_valid b now)) (buffers svc)
      = filter (\<lambda>(sid, b). is_valid b now) (buffers svc)"
    by (simp add: case_prod_unfold)
  then show ?thesis
    using expired_filter [OF assms, of "\<lambda>(sid, b). \<not> is_valid b now"]
    by (simp add: cleanup_expired_def Let_def fold_delete_filter)
qed

lemma map_of_filter_distinct:
  assumes "distinct (map fst al)"
  shows "map_of (filter (\<lambda>(k, v). Q v) al) k =
         (case map_of al k of None \<Rightarrow> None | Some v \<Rightarrow> if Q v then Some v else None)"
  using assms
proof (induction al)
  case Nil show ?case by simp
next
  case (Cons p al)
  obtain k' v' where p: "p = (k', v')" by (cases p)
  have d: "distinct (map fst al)" "k' \<notin> fst ` set al" using Cons.prems p by auto
  show ?case
  proof (cases "k' = k")
    case True
    then have "map_of al k = None" using d(2) by (simp add: map_of_eq_None_iff)
    then show ?thesis using Cons.IH [OF d(1)] True p by simp
  next
    case False
    then show ?thesis using Cons.IH [OF d(1)] p by simp
  qed
qed

lemma svc_ok_cleanup:
  assumes "svc_ok svc" shows "svc_ok (snd (cleanup_expired svc now))"
proof -
  have d: "distinct (map fst (buffers svc))" using assms by (simp add: svc_ok_def)
  show ?thesis using assms
    by (auto simp: cleanup_expired_eq [OF d] svc_ok_def list_all_iff distinct_map_filter)
qed

lemma is_valid_ok:
  "buffer_ok sid b \<Longrightarrow> is_valid b now \<longleftrightarrow> now < last_updated b + timedelta_days 30"
  by (simp add: is_valid_def buffer_ok_def)

lemma expired_count_card:
  assumes "distinct (map fst al)"
  shows "length (filter (\<lambda>(k, v). Q v) al) = card {k. \<exists>v. map_of al k = Some v \<and> Q v}"
proof -
  have d: "distinct (map fst (filter (\<lambda>(k, v). Q v) al))" using assms by (rule distinct_map_filter)
  have "set (map fst (filter (\<lambda>(k, v). Q v) al)) = {k. \<exists>v. map_of al k = Some v \<and> Q v}"
    using assms by (auto simp: image_iff intro: map_of_SomeD)
  then have "card {k. \<exists>v. map_of al k = Some v \<and> Q v} = length (map fst (filter (\<lambda>(k, v). Q v) al))"
    using distinct_card [OF d] by simp
  then show ?thesis by simp
qed

lemmas eval_defs = ingest_obs_def ingest_prediction_def add_sample_def update_aggregation_def
  np_average_def np_sum_def deque_append_def deque_new_def SegmentBuffer_init_def
  AggregationService_init_def obs_at_def Let_def sample_count_def is_finalized_def
  timedelta_days_def

lemma t1: "ingest_all (AggregationService_init 10 30) ''seg_001'' [obs_at (7/10) (9/10) ''v0'' 0]
  = Inr \<lparr>BUFFER_LIMIT = 10, TTL = 2592000000000, buffers = [(''seg_001'',
      \<lparr>segment_id = ''seg_001'',
       samples = \<lparr>maxlen = 10, items = [\<lparr>comfort_score = 7/10, confidence = 9/10, vehicle_id = ''v0'',
          timestamp = 0, speed = 0, heading = 0\<rparr>]\<rparr>,
       aggregated_score = Fin (7/10), last_updated = 0, expires_at = Some 2592000000000\<rparr>)]\<rparr>"
  by (simp add: eval_defs)

lemma t2: "ingest_prediction (AggregationService_init 10 30) ''seg_001'' (7/10) 0 ''v0'' 0 0 None 0
  = Inr ((NaN, 1, False), \<lparr>BUFFER_LIMIT = 10, TTL = 2592000000000, buffers = [(''seg_001'',
      \<lparr>segment_id = ''seg_001'',
       samples = \<lparr>maxlen = 10, items = [\<lparr>comfort_score = 7/10, confidence = 0, vehicle_id = ''v0'',
          timestamp = 0, speed = 0, heading = 0\<rparr>]\<rparr>,
       aggregated_score = NaN, last_updated = 0, expires_at = Some 2592000000000\<rparr>)]\<rparr>)"
  by (simp add: eval_defs)

lemma t3: "aggregate_after (AggregationService_init 10 30) ''seg_001''
     [obs_at (7/10) (9/10) ''v0'' 0, obs_at (8/10) (95/100) ''v1'' 1, obs_at (6/10) (8/10) ''v2'' 2]
  = Some (Fin (187/265))"
  by (simp add: aggregate_after_def eval_defs)

lemma t3b: "aggregate_after (AggregationService_init 10 30) ''seg_001''
     [obs_at 0.7 0.9 ''v0'' 0, obs_at 0.8 0.95 ''v1'' 1, obs_at 0.6 0.8 ''v2'' 2]
  = Some (Fin (187/265)) \<and> \<bar>187/265 - 0.718\<bar> > (0.01::real)"
  by (simp add: aggregate_after_def eval_defs)

lemma conf_sum_all_zero: "\<forall>s\<in>set xs. confidence s = 0 \<Longrightarrow> conf_sum xs = 0"
  by (induction xs) (simp_all add: conf_sum_def)

lemma window_score_all_zero:
  "xs \<noteq> [] \<Longrightarrow> \<forall>s\<in>set xs. confidence s = 0 \<Longrightarrow> window_score xs = NaN"
  by (simp add: window_score_def conf_sum_all_zero)

lemma update_aggregation_all_zero:
  assumes "items (samples b) \<noteq> []" "\<forall>s\<in>set (items (samples b)). confidence s = 0"
  shows "map_sum id aggregated_score (update_aggregation b) = Inr NaN"
  using assms by (simp add: update_aggregation_eq window_score_all_zero)

lemma conf_sum_pos:
  assumes "\<forall>s\<in>set xs. 0 \<le> confidence s" "\<exists>s\<in>set xs. confidence s \<noteq> 0"
  shows "0 < conf_sum xs"
  using assms
proof (induction xs)
  case Nil then show ?case by simp
next
  case (Cons x xs)
  have nn: "0 \<le> conf_sum xs" unfolding conf_sum_def using Cons.prems(1) by (intro sum_list_nonneg) auto
  show ?case
  proof (cases "confidence x = 0")
    case True
    then have "\<exists>s\<in>set xs. confidence s \<noteq> 0" using Cons.prems(2) by auto
    then have "0 < conf_sum xs" using Cons.IH Cons.prems(1) by simp
    then show ?thesis using True by (simp add: conf_sum_def)
  next
    case False
    then have "0 < confidence x" using Cons.prems(1) by (simp add: less_le)
    then show ?thesis using nn by (simp add: conf_sum_def)
  qed
qed

text \<open>
  With exact arithmetic the normalised weights sum to 1, or to \<open>nan\<close> when the
  confidences sum to 0, and never to 0: the exception of \<open>np.average\<close> is not taken and no
  call of \<open>ingest_prediction\<close> raises in the embedding. In the code a raise needs a sum
  of confidences that overflows, which lies outside the range described here.
\<close>

lemma ingest_prediction_not_raised:
  "ingest_prediction svc sid score conf vid spd hdg ts now \<noteq> Inl p"
  by (simp add: ingest_prediction_eq Let_def)

lemma reachable_svc_ok: "reachable svc \<Longrightarrow> svc_ok svc"
proof (induction rule: reachable.induct)
  case (created n t)
  show ?case by (rule svc_ok_init)
next
  case (ingested svc sid score conf vid spd hdg ts now r svc')
  then show ?case using svc_ok_ingest by blast
next
  case (raised svc sid score conf vid spd hdg ts now e svc')
  then show ?case using ingest_prediction_not_raised by blast
next
  case (swept svc now)
  then show ?case using svc_ok_cleanup by blast
qed

lemma example_store_reachable: "reachable example_store"
proof -
  have "ingest_prediction (AggregationService_init 10 30) ''seg_001'' (7/10) (9/10) ''vehicle_0'' 0 0 None 0
     = Inr ((Fin (7/10), 1, False), example_store)"
    by (simp add: eval_defs example_store_def)
  then show ?thesis using reachable.created reachable.ingested by blast
qed

lemma count_after_fresh:
  assumes "map_of (buffers svc) sid = None" "obs \<noteq> []"
  shows "count_after svc sid obs = Some (min 10 (length obs))"
  using fresh_window(1) [OF assms]
  by (auto simp: window_after_def count_after_def sample_count_def length_last_n
      split: sum.splits)

lemma reachable_ingest_all:
  "reachable svc \<Longrightarrow> ingest_all svc sid obs = Inr svc' \<Longrightarrow> reachable svc'"
proof (induction obs arbitrary: svc)
  case Nil
  then show ?case by simp
next
  case (Cons ob obs)
  from Cons.prems(2) obtain r svc1 where
    s: "ingest_obs svc sid ob = Inr (r, svc1)" "ingest_all svc1 sid obs = Inr svc'"
    by (auto split: sum.splits)
  have "reachable svc1"
    using Cons.prems(1) s(1) unfolding ingest_obs_def by (rule reachable.ingested)
  then show ?case using s(2) by (rule Cons.IH)
qed

lemma full_store_ingested:
  "ingest_all (AggregationService_init 10 30) ''seg_001''
     (replicate 10 (obs_at (1/2) (1/2) ''vehicle_0'' 0)) = Inr full_store"
  by (simp add: eval_defs full_store_def eval_nat_numeral)

lemma full_store_reachable: "reachable full_store"
  using reachable.created full_store_ingested by (rule reachable_ingest_all)

lemma reachable_buffer_ok:
  "reachable svc \<Longrightarrow> map_of (buffers svc) sid = Some b \<Longrightarrow> buffer_ok sid b"
  using reachable_svc_ok [of svc] by (auto simp: svc_ok_def list_all_iff dest: map_of_SomeD)

lemma reachable_window_bounded: "reachable svc \<Longrightarrow> window_bounded svc sid"
  by (intro svc_ok_window_bounded reachable_svc_ok)

lemma evict_oldest:
  assumes "reachable svc" "map_of (buffers svc) sid = Some b" "sample_count b = 10"
  shows "window_after svc sid [ob] = Some (tl (items (samples b)) @ [obs_sample ob])"
proof -
  have wb: "window_bounded svc sid" using assms(1) by (rule reachable_window_bounded)
  have ci: "current_items svc sid = items (samples b)" using assms(2) by (simp add: current_items_def)
  have len: "length (items (samples b)) = 10" using assms(3) by (simp add: sample_count_def)
  then have ne: "items (samples b) \<noteq> []" by auto
  from ingest_all_window [OF wb, of "[ob]"] obtain svc' b' where
    r: "ingest_all svc sid [ob] = Inr svc'" "map_of (buffers svc') sid = Some b'"
       "items (samples b') = last_n 10 (items (samples b) @ [obs_sample ob])"
    using ci by auto
  have "last_n 10 (items (samples b) @ [obs_sample ob]) = drop 1 (items (samples b) @ [obs_sample ob])"
    using len by (simp add: last_n_def)
  also have "\<dots> = tl (items (samples b) @ [obs_sample ob])"
    by (simp only: One_nat_def drop_Suc drop_0)
  also have "\<dots> = tl (items (samples b)) @ [obs_sample ob]" using ne by simp
  finally show ?thesis using r by (simp add: window_after_def)
qed

lemma get_recent_predictions_present:
  assumes "map_of (buffers svc) sid = Some b" "0 \<le> limit"
  shows "fst (get_recent_predictions svc sid limit)
           = map prediction_dict (take (nat limit) (items (samples b)))"
    and "int (length (fst (get_recent_predictions svc sid limit))) \<le> limit"
  using assms by (simp_all add: get_recent_predictions_def slice_to_def)

lemma get_recent_predictions_absent:
  "map_of (buffers svc) sid = None \<Longrightarrow> fst (get_recent_predictions svc sid limit) = []"
  by (simp add: get_recent_predictions_def)

text \<open>
  Expiry with the 30 days that \<open>update_aggregation\<close> hard-codes: in every reachable state
  a segment without a buffer is not found by \<open>get_segment_score\<close>; a segment whose
  \<open>last_updated\<close> lies 30 days and one second in the past is found and reported with
  \<open>is_valid\<close> false, is among the expired segments and is absent after
  \<open>cleanup_expired\<close>; \<open>cleanup_expired\<close> removes exactly the segments whose expiry time
  has been reached, keeps every other buffer as it is, and returns the number of
  segments it removed. The field \<open>TTL\<close> of the service plays no part in it.
\<close>

lemma sweep_removes_expired:
  assumes "reachable svc"
  shows "(map_of (buffers svc) sid = None \<longrightarrow> fst (get_segment_score svc sid now) = None)
       \<and> (\<forall>b. map_of (buffers svc) sid = Some b
                \<and> last_updated b = now - (timedelta_days 30 + timedelta_seconds 1) \<longrightarrow>
            (\<exists>info. fst (get_segment_score svc sid now) = Some info \<and> \<not> info_is_valid info)
            \<and> map_of (buffers (snd (cleanup_expired svc now))) sid = None
            \<and> sid \<in> {k. \<exists>b'. map_of (buffers svc) k = Some b' \<and> last_updated b' + timedelta_days 30 \<le> now})
       \<and> (\<forall>k. map_of (buffers (snd (cleanup_expired svc now))) k =
              (case map_of (buffers svc) k of
                 None \<Rightarrow> None
               | Some b' \<Rightarrow> if last_updated b' + timedelta_days 30 \<le> now then None else Some b'))
       \<and> fst (cleanup_expired svc now) =
           card {k. \<exists>b'. map_of (buffers svc) k = Some b' \<and> last_updated b' + timedelta_days 30 \<le> now}"
proof -
  have inv: "svc_ok svc" using assms by (rule reachable_svc_ok)
  have d: "distinct (map fst (buffers svc))" using inv by (simp add: svc_ok_def)
  have ok: "\<And>k b. map_of (buffers svc) k = Some b \<Longrightarrow> buffer_ok k b"
    using inv by (auto simp: svc_ok_def list_all_iff dest: map_of_SomeD)
  have valid: "\<And>k b. map_of (buffers svc) k = Some b \<Longrightarrow>
      is_valid b now \<longleftrightarrow> \<not> last_updated b + timedelta_days 30 \<le> now"
    using is_valid_ok [OF ok] by auto
  have sweep: "\<And>k. map_of (buffers (snd (cleanup_expired svc now))) k =
              (case map_of (buffers svc) k of
                 None \<Rightarrow> None
               | Some b' \<Rightarrow> if last_updated b' + timedelta_days 30 \<le> now then None else Some b')"
    using valid
    by (simp add: cleanup_expired_eq [OF d] map_of_filter_distinct [OF d] split: option.splits)
  have "fst (cleanup_expired svc now) = card {k. \<exists>v. map_of (buffers svc) k = Some v \<and> \<not> is_valid v now}"
    by (simp add: cleanup_expired_eq [OF d] expired_count_card [OF d])
  also have "{k. \<exists>v. map_of (buffers svc) k = Some v \<and> \<not> is_valid v now}
     = {k. \<exists>b'. map_of (buffers svc) k = Some b' \<and> last_updated b' + timedelta_days 30 \<le> now}"
    using valid by auto
  finally have count: "fst (cleanup_expired svc now) =
           card {k. \<exists>b'. map_of (buffers svc) k = Some b' \<and> last_updated b' + timedelta_days 30 \<le> now}" .
  have absent: "map_of (buffers svc) sid = None \<longrightarrow> fst (get_segment_score svc sid now) = None"
    by (simp add: get_segment_score_def)
  have stale: "\<forall>b. map_of (buffers svc) sid = Some b
                \<and> last_updated b = now - (timedelta_days 30 + timedelta_seconds 1) \<longrightarrow>
            (\<exists>info. fst (get_segment_score svc sid now) = Some info \<and> \<not> info_is_valid info)
            \<and> map_of (buffers (snd (cleanup_expired svc now))) sid = None
            \<and> sid \<in> {k. \<exists>b'. map_of (buffers svc) k = Some b' \<and> last_updated b' + timedelta_days 30 \<le> now}"
  proof (intro allI impI)
    fix b assume a: "map_of (buffers svc) sid = Some b
                \<and> last_updated b = now - (timedelta_days 30 + timedelta_seconds 1)"
    then have e: "last_updated b + timedelta_days 30 \<le> now" by (simp add: timedelta_seconds_def)
    have "\<not> is_valid b now" using valid a e by blast
    then have "fst (get_segment_score svc sid now) = Some (segment_dict sid b now)
         \<and> \<not> info_is_valid (segment_dict sid b now)"
      using a by (simp add: get_segment_score_def segment_dict_def)
    moreover have "map_of (buffers (snd (cleanup_expired svc now))) sid = None"
      using sweep [of sid] a e by simp
    ultimately show "(\<exists>info. fst (get_segment_score svc sid now) = Some info \<and> \<not> info_is_valid info)
            \<and> map_of (buffers (snd (cleanup_expired svc now))) sid = None
            \<and> sid \<in> {k. \<exists>b'. map_of (buffers svc) k = Some b' \<and> last_updated b' + timedelta_days 30 \<le> now}"
      using a e by blast
  qed
  show ?thesis using absent stale sweep count by blast
qed

text \<open>
  The cache of cloud/backend/cache.py behaves differently: reading an entry whose expiry
  time has passed deletes it.
\<close>

lemma cache_get_deletes_expired:
  assumes "map_of (cache cm) sid = Some entry" "ce_expires_at entry < now"
  shows "get_segment cm sid now = (None, cm\<lparr>cache := AList.delete sid (cache cm)\<rparr>)"
    and "map_of (cache (snd (get_segment cm sid now))) sid = None"
  using assms by (simp_all add: get_segment_def delete_conv')

lemma list_all_last_n: "list_all P xs \<Longrightarrow> list_all P (last_n n xs)"
  by (auto simp: list_all_iff last_n_def dest: in_set_dropD)

lemma unit_interval_sample_safe:
  assumes "0 \<le> comfort_score s" "comfort_score s \<le> 1" "0 \<le> confidence s" "confidence s \<le> 1"
  shows "sample_safe s"
proof -
  have "(1::real) \<le> 10 ^ 300" by simp
  then show ?thesis using assms by (simp add: sample_safe_def float_safe_def)
qed

section \<open>The claims\<close>

text \<open>
  Claim C1, as stated, fails: \<open>ingest_prediction\<close> has no range check. A call with score 2
  and confidence 3, both outside \<open>[0,1]\<close>, on a new service returns normally and leaves a
  window for the segment that holds the sample.
\<close>

theorem ingest_accepts_out_of_range:
  "ingest_prediction (AggregationService_init 10 30) ''seg_001'' 2 3 ''vehicle_0'' 0 0 None 0
   = Inr ((Fin 2, 1, False),
          \<lparr>BUFFER_LIMIT = 10, TTL = 2592000000000,
           buffers = [(''seg_001'',
             \<lparr>segment_id = ''seg_001'',
              samples = \<lparr>maxlen = 10,
                         items = [\<lparr>comfort_score = 2, confidence = 3, vehicle_id = ''vehicle_0'',
                                   timestamp = 0, speed = 0, heading = 0\<rparr>]\<rparr>,
              aggregated_score = Fin 2, last_updated = 0,
              expires_at = Some 2592000000000\<rparr>)]\<rparr>)"
  by (simp add: eval_defs)

text \<open>
  Claim C1, amended: \<open>ingest_prediction\<close> has no range check and no input error. In every
  reachable state, a call whose confidence is not negative and whose score and
  confidence are at most \<open>10^300\<close> in magnitude, for a segment whose window holds only
  such samples, succeeds whether or not the two values lie in \<open>[0,1]\<close>: it returns the
  triple of the segment's buffer after the call, the buffer is in the dictionary under
  the segment's identifier, its window is the last 10 of the previous window (the empty
  one for a new segment) followed by the sample, the window again holds only such
  samples, the aggregate is the score of that window and \<open>last_updated\<close> is the time of
  the call. In particular every call with both values in \<open>[0,1]\<close> succeeds when the
  window holds samples with values in \<open>[0,1]\<close>.
\<close>

theorem ingest_has_no_range_check:
  assumes "reachable svc"
    and "list_all sample_safe (current_items svc sid)"
    and "0 \<le> conf" and "float_safe conf" and "float_safe score"
  shows "\<exists>b. ingest_prediction svc sid score conf vid spd hdg ts now
            = Inr ((aggregated_score b, sample_count b, is_finalized b),
                   svc\<lparr>buffers := AList.update sid b (buffers svc)\<rparr>)
         \<and> map_of (AList.update sid b (buffers svc)) sid = Some b
         \<and> items (samples b)
             = last_n 10 (current_items svc sid @
                 [\<lparr>comfort_score = score, confidence = conf, vehicle_id = vid,
                   timestamp = (case ts of None \<Rightarrow> now | Some t \<Rightarrow> t),
                   speed = spd, heading = hdg\<rparr>])
         \<and> list_all sample_safe (items (samples b))
         \<and> aggregated_score b = window_score (items (samples b))
         \<and> last_updated b = now"
proof -
  let ?s = "\<lparr>comfort_score = score, confidence = conf, vehicle_id = vid,
             timestamp = (case ts of None \<Rightarrow> now | Some t \<Rightarrow> t), speed = spd, heading = hdg\<rparr>"
  let ?b = "buffer_added (lookup_buffer svc sid now) ?s now"
  have wb: "window_bounded svc sid" using assms(1) by (rule reachable_window_bounded)
  note lb = lookup_buffer_bounded [OF wb, of now]
  note ba = buffer_added_ok [OF lb(1) lb(2), of ?s now]
  have r: "ingest_prediction svc sid score conf vid spd hdg ts now
          = Inr ((aggregated_score ?b, sample_count ?b, is_finalized ?b),
                 svc\<lparr>buffers := AList.update sid ?b (buffers svc)\<rparr>)"
    by (simp add: ingest_prediction_eq Let_def)
  have m: "map_of (AList.update sid ?b (buffers svc)) sid = Some ?b"
    by (simp add: update_conv')
  have i: "items (samples ?b) = last_n 10 (current_items svc sid @ [?s])"
    using ba(1) lb(3) by simp
  have "sample_safe ?s" using assms(3-5) by (simp add: sample_safe_def)
  then have "list_all sample_safe (current_items svc sid @ [?s])"
    using assms(2) by simp
  then have safe: "list_all sample_safe (items (samples ?b))"
    unfolding i by (rule list_all_last_n)
  have g: "aggregated_score ?b = window_score (items (samples ?b))"
    using ba(1) ba(3) by simp
  have l: "last_updated ?b = now" by (rule ba(4))
  show ?thesis using r m i safe g l by blast
qed

theorem ingest_has_no_range_check_witness:
  "reachable (AggregationService_init 10 30)
   \<and> list_all sample_safe (current_items (AggregationService_init 10 30) ''seg_001'')
   \<and> (0::real) \<le> 3 \<and> float_safe 3 \<and> float_safe 2
   \<and> (\<exists>b. ingest_prediction (AggregationService_init 10 30) ''seg_001'' 2 3 ''vehicle_0'' 0 0 None 0
            = Inr ((aggregated_score b, sample_count b, is_finalized b),
                   (AggregationService_init 10 30)
                     \<lparr>buffers := AList.update ''seg_001'' b (buffers (AggregationService_init 10 30))\<rparr>)
          \<and> aggregated_score b = Fin 2)
   \<and> reachable example_store
   \<and> list_all sample_safe (current_items example_store ''seg_001'')
   \<and> (0::real) \<le> 95/100 \<and> float_safe (95/100) \<and> float_safe (8/10)
   \<and> (\<exists>b. ingest_prediction example_store ''seg_001'' (8/10) (95/100) ''vehicle_1'' 0 0 None 1000000
            = Inr ((aggregated_score b, sample_count b, is_finalized b),
                   example_store\<lparr>buffers := AList.update ''seg_001'' b (buffers example_store)\<rparr>)
          \<and> sample_count b = 2)"
proof -
  have a1: "reachable (AggregationService_init 10 30)" by (rule reachable.created)
  have a2: "list_all sample_safe (current_items (AggregationService_init 10 30) ''seg_001'')"
    by (simp add: current_items_def AggregationService_init_def)
  have a3: "(0::real) \<le> 3" "float_safe 3" "float_safe 2" by (simp_all add: float_safe_def)
  have b1: "reachable example_store" by (rule example_store_reachable)
  have b2: "list_all sample_safe (current_items example_store ''seg_001'')"
    by (simp add: current_items_def example_store_def sample_safe_def float_safe_def)
  have b3: "(0::real) \<le> 95/100" "float_safe (95/100)" "float_safe (8/10)"
    by (simp_all add: float_safe_def)
  from ingest_has_no_range_check [OF a1 a2 a3, of "''vehicle_0''" 0 0 None 0]
  obtain b where b:
    "ingest_prediction (AggregationService_init 10 30) ''seg_001'' 2 3 ''vehicle_0'' 0 0 None 0
       = Inr ((aggregated_score b, sample_count b, is_finalized b),
              (AggregationService_init 10 30)
                \<lparr>buffers := AList.update ''seg_001'' b (buffers (AggregationService_init 10 30))\<rparr>)"
    "items (samples b)
       = last_n 10 (current_items (AggregationService_init 10 30) ''seg_001'' @
           [\<lparr>comfort_score = 2, confidence = 3, vehicle_id = ''vehicle_0'',
             timestamp = (case None of None \<Rightarrow> 0 | Some t \<Rightarrow> t), speed = 0, heading = 0\<rparr>])"
    "aggregated_score b = window_score (items (samples b))"
    by blast
  have "aggregated_score b = Fin 2"
    using b(2) b(3)
    by (simp add: current_items_def AggregationService_init_def last_n_def window_score_def
        conf_sum_def spec_weighted_mean_def spec_weights_def)
  then have c1: "\<exists>b. ingest_prediction (AggregationService_init 10 30) ''seg_001'' 2 3 ''vehicle_0'' 0 0 None 0
            = Inr ((aggregated_score b, sample_count b, is_finalized b),
                   (AggregationService_init 10 30)
                     \<lparr>buffers := AList.update ''seg_001'' b (buffers (AggregationService_init 10 30))\<rparr>)
          \<and> aggregated_score b = Fin 2"
    using b(1) by blast
  from ingest_has_no_range_check [OF b1 b2 b3, of "''vehicle_1''" 0 0 None 1000000]
  obtain b' where b':
    "ingest_prediction example_store ''seg_001'' (8/10) (95/100) ''vehicle_1'' 0 0 None 1000000
       = Inr ((aggregated_score b', sample_count b', is_finalized b'),
              example_store\<lparr>buffers := AList.update ''seg_001'' b' (buffers example_store)\<rparr>)"
    "items (samples b')
       = last_n 10 (current_items example_store ''seg_001'' @
           [\<lparr>comfort_score = 8/10, confidence = 95/100, vehicle_id = ''vehicle_1'',
             timestamp = (case None of None \<Rightarrow> 1000000 | Some t \<Rightarrow> t), speed = 0, heading = 0\<rparr>])"
    by blast
  have "sample_count b' = 2"
    using b'(2) by (simp add: sample_count_def current_items_def example_store_def last_n_def)
  then have c2: "\<exists>b. ingest_prediction example_store ''seg_001'' (8/10) (95/100) ''vehicle_1'' 0 0 None 1000000
            = Inr ((aggregated_score b, sample_count b, is_finalized b),
                   example_store\<lparr>buffers := AList.update ''seg_001'' b (buffers example_store)\<rparr>)
          \<and> sample_count b = 2"
    using b'(1) by blast
  show ?thesis using a1 a2 a3 b1 b2 b3 c1 c2 by blast
qed

text \<open>
  Claim C2 against the code: a first sample with confidence 0 (a value inside the
  documented range) makes the normalisation divide zero by zero; the stored and returned
  aggregate is \<open>nan\<close>, where the unweighted mean of the window is 0.7.
\<close>

theorem zero_confidence_gives_nan:
  "ingest_prediction (AggregationService_init 10 30) ''seg_001'' (7/10) 0 ''vehicle_0'' 0 0 None 0
   = Inr ((NaN, 1, False),
          \<lparr>BUFFER_LIMIT = 10, TTL = 2592000000000,
           buffers = [(''seg_001'',
             \<lparr>segment_id = ''seg_001'',
              samples = \<lparr>maxlen = 10,
                         items = [\<lparr>comfort_score = 7/10, confidence = 0, vehicle_id = ''vehicle_0'',
                                   timestamp = 0, speed = 0, heading = 0\<rparr>]\<rparr>,
              aggregated_score = NaN, last_updated = 0,
              expires_at = Some 2592000000000\<rparr>)]\<rparr>)
   \<and> spec_unweighted_mean
         [\<lparr>comfort_score = 7/10, confidence = 0, vehicle_id = ''vehicle_0'',
           timestamp = 0, speed = 0, heading = 0\<rparr>] = 7/10"
  by (simp add: eval_defs spec_unweighted_mean_def)

text \<open>
  Claim C3, as stated, fails on its example: scores \<open>[0.7,0.8,0.6]\<close> with confidences
  \<open>[0.9,0.95,0.8]\<close> give the aggregate \<open>187/265\<close>, about 0.7057, which is more than
  0.01 away from 0.718.
\<close>

theorem example_is_not_0718:
  "aggregate_after (AggregationService_init 10 30) ''seg_001'' spec_example = Some (Fin (187/265))
   \<and> (1/100 :: real) < \<bar>187/265 - 718/1000\<bar>"
  by (simp add: aggregate_after_def spec_example_def eval_defs)

text \<open>
  Claim C3, amended: for every sequence of at most 10 inserts to a segment that has no
  window yet, with confidences that are non-negative and not all zero, the window holds
  exactly the inserted samples and the aggregate is their confidence-weighted mean, the
  weights being the confidences normalised to sum 1. The example of the specification
  yields \<open>187/265\<close> (about 0.706).
\<close>

theorem weighted_mean_of_inserted:
  "(map_of (buffers svc) sid = None \<and> length obs \<le> 10
      \<and> (\<forall>ob\<in>set obs. 0 \<le> obs_confidence ob) \<and> (\<exists>ob\<in>set obs. obs_confidence ob \<noteq> 0)
    \<longrightarrow> window_after svc sid obs = Some (map obs_sample obs)
        \<and> aggregate_after svc sid obs = Some (Fin (spec_weighted_mean (map obs_sample obs)))
        \<and> sum_list (spec_weights (map obs_sample obs)) = 1)
   \<and> aggregate_after (AggregationService_init 10 30) ''seg_001'' spec_example = Some (Fin (187/265))"
proof (intro conjI impI)
  assume a: "map_of (buffers svc) sid = None \<and> length obs \<le> 10
      \<and> (\<forall>ob\<in>set obs. 0 \<le> obs_confidence ob) \<and> (\<exists>ob\<in>set obs. obs_confidence ob \<noteq> 0)"
  then have ne: "obs \<noteq> []" by auto
  have l: "last_n 10 (map obs_sample obs) = map obs_sample obs" using a by (simp add: last_n_short)
  have "0 < conf_sum (map obs_sample obs)"
    using a by (intro conf_sum_pos) (auto simp: obs_sample_def)
  then have nz: "conf_sum (map obs_sample obs) \<noteq> 0" by simp
  show "window_after svc sid obs = Some (map obs_sample obs)"
    using fresh_window(1) [of svc sid obs] a ne l by simp
  show "aggregate_after svc sid obs = Some (Fin (spec_weighted_mean (map obs_sample obs)))"
    using fresh_window(2) [of svc sid obs] a ne l nz by (simp add: window_score_def)
  show "sum_list (spec_weights (map obs_sample obs)) = 1"
    using nz by (rule spec_weights_sum_one)
next
  show "aggregate_after (AggregationService_init 10 30) ''seg_001'' spec_example = Some (Fin (187/265))"
    by (simp add: aggregate_after_def spec_example_def eval_defs)
qed

theorem weighted_mean_of_inserted_witness:
  "map_of (buffers (AggregationService_init 10 30)) ''seg_001'' = None \<and> length spec_example \<le> 10
   \<and> list_all (\<lambda>ob. 0 \<le> obs_confidence ob) spec_example
   \<and> (\<exists>ob\<in>set spec_example. obs_confidence ob \<noteq> 0)
   \<and> aggregate_after (AggregationService_init 10 30) ''seg_001'' spec_example
       = Some (Fin (spec_weighted_mean (map obs_sample spec_example)))
   \<and> spec_weighted_mean (map obs_sample spec_example) = 187/265"
proof -
  have h: "map_of (buffers (AggregationService_init 10 30)) ''seg_001'' = None \<and> length spec_example \<le> 10
   \<and> (\<forall>ob\<in>set spec_example. 0 \<le> obs_confidence ob) \<and> (\<exists>ob\<in>set spec_example. obs_confidence ob \<noteq> 0)"
    by (simp add: AggregationService_init_def spec_example_def obs_at_def)
  have v: "spec_weighted_mean (map obs_sample spec_example) = 187/265"
    by (simp add: spec_weighted_mean_def spec_weights_def spec_example_def obs_at_def obs_sample_def)
  have "aggregate_after (AggregationService_init 10 30) ''seg_001'' spec_example
       = Some (Fin (spec_weighted_mean (map obs_sample spec_example)))"
    using h weighted_mean_of_inserted [of "AggregationService_init 10 30" "''seg_001''" spec_example]
    by blast
  then show ?thesis using h v by (simp add: list_all_iff)
qed

text \<open>
  Claim C4: in every reachable state of the service the window of every segment holds
  at most 10 samples, and an insert into a window that holds 10 samples drops the oldest
  one and appends the new one. After any non-empty sequence of inserts to a segment
  that had no window, the window is the last 10 of the inserted samples, in insertion
  order; after exactly 11 inserts it is samples 2 to 11, and the aggregate is the one of
  those ten samples alone: the score of that window, which is also the aggregate that
  inserting only samples 2 to 11 produces.
\<close>

theorem window_is_fifo_of_ten:
  "(reachable svc \<longrightarrow> (\<forall>k b. map_of (buffers svc) k = Some b \<longrightarrow> sample_count b \<le> 10))
   \<and> (reachable svc \<and> map_of (buffers svc) sid = Some b0 \<and> sample_count b0 = 10 \<longrightarrow>
        window_after svc sid [ob] = Some (tl (items (samples b0)) @ [obs_sample ob]))
   \<and> (map_of (buffers svc) sid = None \<and> obs \<noteq> [] \<longrightarrow>
        window_after svc sid obs = Some (last_n 10 (map obs_sample obs))
        \<and> length (last_n 10 (map obs_sample obs)) \<le> 10)
   \<and> (map_of (buffers svc) sid = None \<and> length obs = 11 \<longrightarrow>
        window_after svc sid obs = Some (tl (map obs_sample obs))
        \<and> aggregate_after svc sid obs = Some (window_score (tl (map obs_sample obs)))
        \<and> aggregate_after svc sid obs = aggregate_after svc sid (tl obs))"
proof (intro conjI impI allI)
  fix k b assume "reachable svc" "map_of (buffers svc) k = Some b"
  then have "buffer_ok k b" by (rule reachable_buffer_ok)
  then show "sample_count b \<le> 10" by (simp add: buffer_ok_def sample_count_def)
next
  assume "reachable svc \<and> map_of (buffers svc) sid = Some b0 \<and> sample_count b0 = 10"
  then show "window_after svc sid [ob] = Some (tl (items (samples b0)) @ [obs_sample ob])"
    using evict_oldest by blast
next
  assume "map_of (buffers svc) sid = None \<and> obs \<noteq> []"
  then show "window_after svc sid obs = Some (last_n 10 (map obs_sample obs))"
    using fresh_window(1) by blast
next
  show "length (last_n 10 (map obs_sample obs)) \<le> 10" by (simp add: length_last_n)
next
  assume a: "map_of (buffers svc) sid = None \<and> length obs = 11"
  then have ne: "obs \<noteq> []" by auto
  have "last_n 10 (map obs_sample obs) = drop 1 (map obs_sample obs)"
    using a by (simp add: last_n_def)
  then have l: "last_n 10 (map obs_sample obs) = tl (map obs_sample obs)"
    by (simp only: One_nat_def drop_Suc drop_0)
  have ne': "tl obs \<noteq> []" using a by (cases obs) auto
  have l': "last_n 10 (map obs_sample (tl obs)) = tl (map obs_sample obs)"
    using a by (simp add: last_n_short map_tl)
  show w: "window_after svc sid obs = Some (tl (map obs_sample obs))"
    using fresh_window(1) [of svc sid obs] a ne l by simp
  show g: "aggregate_after svc sid obs = Some (window_score (tl (map obs_sample obs)))"
    using fresh_window(2) [of svc sid obs] a ne l by simp
  show "aggregate_after svc sid obs = aggregate_after svc sid (tl obs)"
    using fresh_window(2) [of svc sid "tl obs"] a ne' l' g by simp
qed

theorem window_is_fifo_of_ten_witness:
  "reachable full_store
   \<and> (\<exists>b. map_of (buffers full_store) ''seg_001'' = Some b \<and> sample_count b = 10
          \<and> window_after full_store ''seg_001'' [obs_at (7/10) (9/10) ''vehicle_1'' 1000000]
              = Some (tl (items (samples b)) @ [obs_sample (obs_at (7/10) (9/10) ''vehicle_1'' 1000000)]))
   \<and> map_of (buffers (AggregationService_init 10 30)) ''seg_001'' = None
   \<and> eleven_obs \<noteq> [] \<and> length eleven_obs = 11
   \<and> window_after (AggregationService_init 10 30) ''seg_001'' eleven_obs
       = Some (tl (map obs_sample eleven_obs))
   \<and> aggregate_after (AggregationService_init 10 30) ''seg_001'' eleven_obs
       = aggregate_after (AggregationService_init 10 30) ''seg_001'' (tl eleven_obs)"
proof -
  have h1: "reachable full_store" by (rule full_store_reachable)
  have h2: "map_of (buffers (AggregationService_init 10 30)) ''seg_001'' = None"
    by (simp add: AggregationService_init_def)
  have h3: "length eleven_obs = 11" by (simp add: eleven_obs_def)
  then have h4: "eleven_obs \<noteq> []" by auto
  obtain b where h5: "map_of (buffers full_store) ''seg_001'' = Some b" "sample_count b = 10"
    by (simp add: full_store_def sample_count_def)
  have "window_after full_store ''seg_001'' [obs_at (7/10) (9/10) ''vehicle_1'' 1000000]
      = Some (tl (items (samples b)) @ [obs_sample (obs_at (7/10) (9/10) ''vehicle_1'' 1000000)])"
    using h1 h5 window_is_fifo_of_ten [where svc = full_store and sid = "''seg_001''" and ?b0.0 = b]
    by blast
  then have e: "\<exists>b. map_of (buffers full_store) ''seg_001'' = Some b \<and> sample_count b = 10
          \<and> window_after full_store ''seg_001'' [obs_at (7/10) (9/10) ''vehicle_1'' 1000000]
              = Some (tl (items (samples b)) @ [obs_sample (obs_at (7/10) (9/10) ''vehicle_1'' 1000000)])"
    using h5 by blast
  show ?thesis
    using h1 h2 h3 h4 e
      window_is_fifo_of_ten [where svc = "AggregationService_init 10 30" and sid = "''seg_001''"
        and obs = eleven_obs]
    by blast
qed

text \<open>
  Claim C5 against the code: after the three inserts of the example, in the order
  vehicle_0, vehicle_1, vehicle_2, \<open>get_recent_predictions\<close> with limit 1 returns the
  prediction of vehicle_0, the oldest one, and with limit 10 it returns the three
  predictions oldest first.
\<close>

theorem recent_predictions_are_oldest_first:
  "recent_after (AggregationService_init 10 30) ''seg_001'' spec_example 1
     = Some [\<lparr>pred_vehicle_id = ''vehicle_0'', pred_comfort_score = 7/10, pred_confidence = 9/10,
              pred_timestamp = 0, pred_speed = 0, pred_heading = 0\<rparr>]
   \<and> recent_after (AggregationService_init 10 30) ''seg_001'' spec_example 10
     = Some [\<lparr>pred_vehicle_id = ''vehicle_0'', pred_comfort_score = 7/10, pred_confidence = 9/10,
              pred_timestamp = 0, pred_speed = 0, pred_heading = 0\<rparr>,
             \<lparr>pred_vehicle_id = ''vehicle_1'', pred_comfort_score = 8/10, pred_confidence = 95/100,
              pred_timestamp = 1000000, pred_speed = 0, pred_heading = 0\<rparr>,
             \<lparr>pred_vehicle_id = ''vehicle_2'', pred_comfort_score = 6/10, pred_confidence = 8/10,
              pred_timestamp = 2000000, pred_speed = 0, pred_heading = 0\<rparr>]"
  by (simp add: recent_after_def spec_example_def eval_defs get_recent_predictions_def
      slice_to_def prediction_dict_def)

text \<open>
  Claim C6 against the code: a service constructed with \<open>segment_buffer_limit = 3\<close> keeps
  3 in \<open>BUFFER_LIMIT\<close>, yet after 3 inserts the segment is not finalized and after a 4th
  insert the window holds 4 samples: nothing was evicted.
\<close>

theorem configured_capacity_is_ignored:
  "BUFFER_LIMIT (AggregationService_init 3 30) = 3
   \<and> count_after (AggregationService_init 3 30) ''seg_001'' spec_example = Some 3
   \<and> finalized_after (AggregationService_init 3 30) ''seg_001'' spec_example = Some False
   \<and> count_after (AggregationService_init 3 30) ''seg_001''
        (spec_example @ [obs_at (1/2) (1/2) ''vehicle_3'' 3000000]) = Some 4"
  by (simp add: count_after_def finalized_after_def spec_example_def eval_defs)

text \<open>
  Claim C7: after a non-empty sequence of inserts to a segment that had no window, the
  segment is finalized exactly when at least 10 samples were inserted (so it is not for
  1 to 9 inserts and it is from the 10th insert on), the window then holding the smaller
  of 10 and the number of inserts. In every reachable state of the service, a segment
  that is finalized is still finalized after any further sequence of inserts to it.
  \<open>is_finalized\<close> is true exactly when the window holds at least 10 samples.
\<close>

theorem finalized_from_ten_on:
  "(map_of (buffers svc) sid = None \<and> obs \<noteq> [] \<longrightarrow>
      finalized_after svc sid obs = Some (10 \<le> length obs)
      \<and> count_after svc sid obs = Some (min 10 (length obs)))
   \<and> (reachable svc \<and> (\<exists>b. map_of (buffers svc) sid = Some b \<and> is_finalized b) \<longrightarrow>
      finalized_after svc sid obs = Some True)
   \<and> (is_finalized b \<longleftrightarrow> 10 \<le> sample_count b)"
proof (intro conjI impI)
  assume a: "map_of (buffers svc) sid = None \<and> obs \<noteq> []"
  then show "finalized_after svc sid obs = Some (10 \<le> length obs)"
    using fresh_window(3) by blast
  show "count_after svc sid obs = Some (min 10 (length obs))"
    using a count_after_fresh by blast
next
  assume a: "reachable svc \<and> (\<exists>b. map_of (buffers svc) sid = Some b \<and> is_finalized b)"
  then obtain b0 where b0: "map_of (buffers svc) sid = Some b0" "is_finalized b0" by blast
  show "finalized_after svc sid obs = Some True"
  proof (cases "obs = []")
    case True
    then show ?thesis using b0 by (simp add: finalized_after_def)
  next
    case False
    have wb: "window_bounded svc sid" using a reachable_window_bounded by blast
    have c: "10 \<le> length (current_items svc sid)"
      using b0 by (simp add: current_items_def is_finalized_def)
    from ingest_all_window [OF wb False] obtain svc' b' where
      r: "ingest_all svc sid obs = Inr svc'" "map_of (buffers svc') sid = Some b'"
         "items (samples b') = last_n 10 (current_items svc sid @ map obs_sample obs)"
      by blast
    have "is_finalized b'" using r(3) c by (simp add: is_finalized_def length_last_n)
    then show ?thesis using r(1) r(2) by (simp add: finalized_after_def)
  qed
next
  show "is_finalized b \<longleftrightarrow> 10 \<le> sample_count b"
    by (simp add: is_finalized_def sample_count_def)
qed

theorem finalized_from_ten_on_witness:
  "map_of (buffers (AggregationService_init 10 30)) ''seg_001'' = None \<and> spec_example \<noteq> []
   \<and> finalized_after (AggregationService_init 10 30) ''seg_001'' spec_example = Some False
   \<and> eleven_obs \<noteq> []
   \<and> finalized_after (AggregationService_init 10 30) ''seg_001'' eleven_obs = Some True
   \<and> reachable full_store
   \<and> (\<exists>b. map_of (buffers full_store) ''seg_001'' = Some b \<and> is_finalized b)
   \<and> finalized_after full_store ''seg_001'' spec_example = Some True"
proof -
  have h1: "map_of (buffers (AggregationService_init 10 30)) ''seg_001'' = None"
    by (simp add: AggregationService_init_def)
  have h2: "spec_example \<noteq> []" "length spec_example = 3" by (simp_all add: spec_example_def)
  have h3: "eleven_obs \<noteq> []" "length eleven_obs = 11" by (simp_all add: eleven_obs_def)
  have h4: "reachable full_store" by (rule full_store_reachable)
  have h5: "\<exists>b. map_of (buffers full_store) ''seg_001'' = Some b \<and> is_finalized b"
    by (simp add: full_store_def is_finalized_def)
  have "finalized_after (AggregationService_init 10 30) ''seg_001'' spec_example = Some False"
    using h1 h2 finalized_from_ten_on [where svc = "AggregationService_init 10 30"
        and sid = "''seg_001''" and obs = spec_example] by simp
  moreover have "finalized_after (AggregationService_init 10 30) ''seg_001'' eleven_obs = Some True"
    using h1 h3 finalized_from_ten_on [where svc = "AggregationService_init 10 30"
        and sid = "''seg_001''" and obs = eleven_obs] by simp
  moreover have "finalized_after full_store ''seg_001'' spec_example = Some True"
    using h4 h5 finalized_from_ten_on [where svc = full_store and sid = "''seg_001''"
        and obs = spec_example] by blast
  ultimately show ?thesis using h1 h2(1) h3(1) h4 h5 by blast
qed

text \<open>
  Claim C8 against the code: a service constructed with \<open>ttl_days = 1\<close> keeps one day in
  \<open>TTL\<close>, yet the buffer of a segment ingested at time 0 expires after the 30 days that
  \<open>update_aggregation\<close> hard-codes. One day and one second later, when \<open>last_updated\<close>
  lies \<open>TTL\<close> plus one second in the past, \<open>get_segment_score\<close> still reports the segment
  with \<open>is_valid\<close> true, and \<open>cleanup_expired\<close> removes nothing: it returns 0 and the
  segment is still in the dictionary.
\<close>

theorem configured_ttl_is_ignored:
  "ingest_prediction (AggregationService_init 10 1) ''seg_001'' (7/10) (9/10) ''vehicle_0'' 0 0 None 0
     = Inr ((Fin (7/10), 1, False), short_ttl_store)
   \<and> TTL short_ttl_store = timedelta_days 1
   \<and> map_option info_last_updated
        (fst (get_segment_score short_ttl_store ''seg_001'' (timedelta_days 1 + timedelta_seconds 1)))
       = Some ((timedelta_days 1 + timedelta_seconds 1) - (TTL short_ttl_store + timedelta_seconds 1))
   \<and> map_option info_is_valid
        (fst (get_segment_score short_ttl_store ''seg_001'' (timedelta_days 1 + timedelta_seconds 1)))
       = Some True
   \<and> fst (cleanup_expired short_ttl_store (timedelta_days 1 + timedelta_seconds 1)) = 0
   \<and> map_option segment_id
        (map_of (buffers (snd (cleanup_expired short_ttl_store (timedelta_days 1 + timedelta_seconds 1))))
           ''seg_001'')
       = Some ''seg_001''"
  by (simp add: eval_defs short_ttl_store_def get_segment_score_def segment_dict_def
      is_valid_def cleanup_expired_def timedelta_seconds_def)

text \<open>
  Claim C9: \<open>get_stats\<close> never raises; it counts the valid segments and, among those,
  the finalized ones, and \<open>finalization_rate\<close> is 0 when there is no valid segment and
  the quotient of the two counts otherwise.
\<close>

theorem finalization_rate_guarded:
  "\<exists>st. get_stats svc now = Inr st
     \<and> valid_segments st = length (filter (\<lambda>(sid, b). is_valid b now) (buffers svc))
     \<and> finalized_segments st = length (filter (\<lambda>(sid, b). is_valid b now \<and> is_finalized b) (buffers svc))
     \<and> finalization_rate st =
         (if valid_segments st = 0 then 0
          else real (finalized_segments st) / real (valid_segments st))"
proof -
  let ?valid = "filter (\<lambda>b. is_valid b now) (map snd (buffers svc))"
  have 1: "length ?valid = length (filter (\<lambda>(sid, b). is_valid b now) (buffers svc))"
    by (simp add: filter_map comp_def case_prod_unfold)
  have 2: "length (filter is_finalized ?valid)
     = length (filter (\<lambda>(sid, b). is_valid b now \<and> is_finalized b) (buffers svc))"
    by (simp add: filter_map comp_def case_prod_unfold conj_commute)
  show ?thesis
  proof (cases "?valid = []")
    case True
    then have "get_stats svc now =
      Inr \<lparr>total_segments = length (buffers svc), valid_segments = 0, finalized_segments = 0,
           avg_samples_per_segment = Fin 0, avg_comfort_score = Fin (1/2), finalization_rate = 0\<rparr>"
      by (simp add: get_stats_def Let_def del: filter_map)
    then show ?thesis using True 1 2 by (simp del: filter_map)
  next
    case False
    then have n: "length ?valid \<noteq> 0" by (simp only: length_0_conv not_False_eq_True)
    have "get_stats svc now =
      Inr \<lparr>total_segments = length (buffers svc), valid_segments = length ?valid,
           finalized_segments = length (filter is_finalized ?valid),
           avg_samples_per_segment = np_mean (map (\<lambda>b. Fin (real (sample_count b))) ?valid),
           avg_comfort_score = np_mean (map aggregated_score ?valid),
           finalization_rate = real (length (filter is_finalized ?valid)) / real (length ?valid)\<rparr>"
      using False n by (simp add: get_stats_def Let_def py_truediv_def del: filter_map)
    then show ?thesis using n 1 2 by (simp del: filter_map)
  qed
qed

theorem finalization_rate_guarded_witness:
  "\<exists>st. get_stats example_store 0 = Inr st \<and> valid_segments st = 1 \<and> finalized_segments st = 0
        \<and> finalization_rate st = 0"
  using finalization_rate_guarded [of example_store 0]
  by (auto simp: example_store_def is_valid_def is_finalized_def timedelta_days_def)

text \<open>
  Claim C10: \<open>get_segment_score\<close>, \<open>get_all_segments\<close> and \<open>get_recent_predictions\<close>
  leave the service exactly as it was, for every service state, segment and argument;
  in particular a query for an absent segment creates no entry.
\<close>

theorem reads_leave_store_unchanged:
  "snd (get_segment_score svc sid now) = svc
   \<and> snd (get_all_segments svc include_invalid include_finalized_only now) = svc
   \<and> snd (get_recent_predictions svc sid limit) = svc"
  by (simp add: get_segment_score_def get_all_segments_def get_recent_predictions_def
      split: option.splits)

theorem reads_leave_store_unchanged_witness:
  "snd (get_segment_score example_store ''seg_404'' 0) = example_store
   \<and> map_of (buffers (snd (get_segment_score example_store ''seg_404'' 0))) ''seg_404'' = None
   \<and> snd (get_all_segments example_store False False 0) = example_store
   \<and> snd (get_recent_predictions example_store ''seg_404'' 10) = example_store"
  using reads_leave_store_unchanged [of example_store "''seg_404''" 0 False False 10]
  by (simp add: example_store_def)

end
